theory Spec2Isabelle
  imports Main
begin

section \<open>Strings of the host language\<close>

text \<open>
  A string is a list of code units; the model covers code units below 256, so a
  \<^typ>\<open>char\<close> stands for one code unit. In that range the line terminators are
  LF and CR, and the class \<open>\s\<close> (which is also what \<open>trim()\<close> strips) holds
  TAB, LF, VT, FF, CR, SPACE and NBSP.
\<close>

definition LineTerminator :: "char \<Rightarrow> bool" where
  "LineTerminator c = (c = CHR 0x0A \<or> c = CHR 0x0D)"

definition WhiteSpace :: "char \<Rightarrow> bool" where
  "WhiteSpace c = (c = CHR 0x09 \<or> c = CHR 0x0A \<or> c = CHR 0x0B \<or> c = CHR 0x0C
     \<or> c = CHR 0x0D \<or> c = CHR 0x20 \<or> c = CHR 0xA0)"

definition trim :: "string \<Rightarrow> string" where
  "trim s = rev (dropWhile WhiteSpace (rev (dropWhile WhiteSpace s)))"

text \<open>
  The pattern \<open>/^#\s+(.+)$/m\<close>. After the \<open>#\<close>, \<open>\s+\<close> is greedy and gives
  characters back one at a time; \<open>(.+)\<close> then takes the rest of the line, which
  must not be empty, and \<open>$\<close> holds there because the next character is a line
  terminator or the end of the input. \<open>heading_tail k r\<close> tries \<open>k\<close>, \<open>k - 1\<close>,
  ..., \<open>1\<close> characters for \<open>\s+\<close>.
\<close>

fun heading_tail :: "nat \<Rightarrow> string \<Rightarrow> (nat \<times> string) option" where
  "heading_tail 0 r = None"
| "heading_tail (Suc k) r =
     (let line = takeWhile (\<lambda>c. \<not> LineTerminator c) (drop (Suc k) r)
      in if line \<noteq> [] then Some (Suc k, line) else heading_tail k r)"

text \<open>One attempt, at a position where \<open>^\<close> holds: the whole match and group 1.\<close>

definition heading_at :: "string \<Rightarrow> (string \<times> string) option" where
  "heading_at s =
     (case s of
        [] \<Rightarrow> None
      | c # r \<Rightarrow>
          if c = CHR ''#'' then
            (case heading_tail (length (takeWhile WhiteSpace r)) r of
               None \<Rightarrow> None
             | Some (k, line) \<Rightarrow> Some (c # take k r @ line, line))
          else None)"

text \<open>
  The leftmost match: index, whole match, group 1. With the \<open>m\<close> flag \<open>^\<close> holds
  at index 0 and after every line terminator.
\<close>

fun heading_search :: "bool \<Rightarrow> nat \<Rightarrow> string \<Rightarrow> (nat \<times> string \<times> string) option" where
  "heading_search bol i [] = None"
| "heading_search bol i (c # r) =
     (case (if bol then heading_at (c # r) else None) of
        Some (m0, g1) \<Rightarrow> Some (i, m0, g1)
      | None \<Rightarrow> heading_search (LineTerminator c) (Suc i) r)"

definition match_heading :: "string \<Rightarrow> (nat \<times> string \<times> string) option" where
  "match_heading content = heading_search True 0 content"

text \<open>\<open>getTitleFromContent\<close> of \<open>shared/types\<close>.\<close>

definition getTitleFromContent :: "string \<Rightarrow> string" where
  "getTitleFromContent content =
     (case match_heading content of
        Some (i, m0, g1) \<Rightarrow> trim g1
      | None \<Rightarrow> ''Untitled'')"

text \<open>Decimal rendering of a number inside a template string.\<close>

definition digit_char :: "nat \<Rightarrow> char" where
  "digit_char d = char_of (48 + d)"

function string_of_nat :: "nat \<Rightarrow> string" where
  "string_of_nat n =
     (if n < 10 then [digit_char n] else string_of_nat (n div 10) @ [digit_char (n mod 10)])"
  by pat_completeness auto
termination
  by (relation "measure (\<lambda>n. n)") auto

declare string_of_nat.simps [simp del]

definition string_of_int :: "int \<Rightarrow> string" where
  "string_of_int i = (if i < 0 then CHR ''-'' # string_of_nat (nat (- i)) else string_of_nat (nat i))"

section \<open>Data model\<close>

record GitHubMeta =
  issueNumber :: int
  repo :: string
  htmlUrl :: string
  syncedAt :: string

text \<open>
  \<open>id\<close> is written \<open>id'\<close>. \<open>assignee\<close>, \<open>dueDate\<close>, \<open>completedAt\<close> are
  \<open>string | null\<close>; \<open>github\<close> is optional.
\<close>

record Feature =
  id' :: string
  status :: string
  priority :: string
  assignee :: "string option"
  dueDate :: "string option"
  created :: string
  modified :: string
  completedAt :: "string option"
  labels :: "string list"
  order :: int
  content :: string
  filePath :: string
  github :: "GitHubMeta option"

text \<open>
  An issue as the remote returns it. \<open>issue_assignee\<close> is \<open>assignee?.login\<close>,
  \<open>issue_labels\<close> the list of \<open>(name, color)\<close>, \<open>pull_request\<close> whether that
  field is truthy. The fields \<open>user\<close>, \<open>created_at\<close> and \<open>reactions\<close> are read
  by \<open>fetchComments\<close> only and are left out.
\<close>

record GitHubIssue =
  number :: int
  title :: string
  body :: "string option"
  state :: string
  html_url :: string
  updated_at :: string
  pull_request :: bool
  issue_assignee :: "string option"
  issue_labels :: "(string \<times> string) list"

text \<open>
  The outcome of a pass. \<open>created\<close> holds fresh objects; \<open>updated\<close> and \<open>pushed\<close>
  hold references to the objects of the array given to \<open>sync\<close>, written as their
  indices in that array.
\<close>

record SyncResult =
  created :: "Feature list"
  updated :: "nat list"
  pushed :: "nat list"
  errors :: "string list"

datatype SyncStatus = Idle | Syncing | Success | Error

section \<open>The service, its effects and its environment\<close>

datatype http_method = GET | PATCH

fun method_name :: "http_method \<Rightarrow> string" where
  "method_name GET = ''GET''"
| "method_name PATCH = ''PATCH''"

record patch =
  patch_title :: string
  patch_body :: string
  patch_state :: string

record request =
  req_method :: http_method
  req_path :: string
  req_body :: "patch option"

text \<open>
  A response: \<open>body_text\<close> and \<open>body_json\<close> (\<open>text()\<close>, \<open>json()\<close>) are \<open>Inl m\<close> when reading the body rejects
  with message \<open>m\<close>. The parsed data of a PATCH is never read.
\<close>

record response =
  status_code :: nat
  rateLimitRemaining :: "string option"
  rateLimitReset :: "string option"
  body_text :: "string + string"
  body_json :: "string + GitHubIssue list"

definition ok :: "response \<Rightarrow> bool" where
  "ok r = (200 \<le> status_code r \<and> status_code r \<le> 299)"

datatype fetch_reply = FetchRejects string | Response response

record session =
  accessToken :: string
  label :: string

datatype session_reply = SessionRejects string | NoSession | Session session

text \<open>
  What the code throws. \<open>message\<close> is the text the \<open>catch\<close> blocks read;
  \<open>Thrown m\<close> is a rejection of the platform with message \<open>m\<close>.
\<close>

datatype error =
    AuthenticationRequired
  | RateLimitExceeded string
  | RemoteAPIError http_method string nat string
  | Thrown string

fun message :: "error \<Rightarrow> string" where
  "message AuthenticationRequired = ''GitHub authentication required''"
| "message (RateLimitExceeded resetDate) =
     ''GitHub API rate limit exceeded. Resets at '' @ resetDate @ ''.''"
| "message (RemoteAPIError m p st t) =
     ''GitHub API '' @ method_name m @ '' '' @ p @ '' failed ('' @ string_of_nat st @ ''): '' @ t"
| "message (Thrown m) = m"

text \<open>
  The environment of one run: what the configuration, the authentication provider,
  the network and the clock answer, by the number of earlier calls. \<open>getTime\<close> is
  \<open>new Date(s).getTime()\<close> with \<open>None\<close> for NaN; \<open>resetClock\<close> is
  \<open>new Date(parseInt(s) * 1000).toLocaleTimeString()\<close>; \<open>generateFeatureFilename\<close>
  is the function of \<open>shared/types\<close>.
\<close>

record env =
  configRepo :: "string option"
  detectRepo :: "string option"
  authSession :: "nat \<Rightarrow> session_reply"
  httpFetch :: "nat \<Rightarrow> request \<Rightarrow> fetch_reply"
  nowISO :: "nat \<Rightarrow> string"
  getTime :: "string \<Rightarrow> int option"
  resetClock :: "string \<Rightarrow> string"
  generateFeatureFilename :: "string \<Rightarrow> string"

text \<open>
  The fields of the service object and the effects it has had: sessions asked for,
  requests sent, clock reads, warnings shown, status changes reported.
\<close>

record service =
  this_repo :: "string option"
  this_syncing :: bool
  this_currentUserLogin :: "string option"
  sessionCalls :: nat
  sent :: "request list"
  clock :: nat
  warnings :: "string list"
  statusChanges :: "(SyncStatus \<times> string option) list"

definition truthy :: "string option \<Rightarrow> bool" where
  "truthy v = (case v of None \<Rightarrow> False | Some s \<Rightarrow> s \<noteq> [])"

definition now :: "env \<Rightarrow> service \<Rightarrow> string \<times> service" where
  "now e s = (nowISO e (clock s), s\<lparr>clock := Suc (clock s)\<rparr>)"

definition onStatusChange :: "SyncStatus \<Rightarrow> string option \<Rightarrow> service \<Rightarrow> service" where
  "onStatusChange st msg s = s\<lparr>statusChanges := statusChanges s @ [(st, msg)]\<rparr>"

definition js_gt :: "int option \<Rightarrow> int option \<Rightarrow> bool" where
  "js_gt a b = (case (a, b) of (Some x, Some y) \<Rightarrow> x > y | _ \<Rightarrow> False)"

definition js_ge :: "int option \<Rightarrow> int option \<Rightarrow> bool" where
  "js_ge a b = (case (a, b) of (Some x, Some y) \<Rightarrow> x \<ge> y | _ \<Rightarrow> False)"

definition js_le :: "int option \<Rightarrow> int option \<Rightarrow> bool" where
  "js_le a b = (case (a, b) of (Some x, Some y) \<Rightarrow> x \<le> y | _ \<Rightarrow> False)"

section \<open>GitHubService: status mapping, pull and push of one record\<close>

definition resolveOpenIssueStatus :: "service \<Rightarrow> GitHubIssue \<Rightarrow> string" where
  "resolveOpenIssueStatus s issue =
     (if truthy (this_currentUserLogin s) \<and> issue_assignee issue = this_currentUserLogin s
      then ''todo'' else ''backlog'')"

definition issueContent :: "GitHubIssue \<Rightarrow> string" where
  "issueContent issue =
     (let b = (case body issue of None \<Rightarrow> [] | Some b \<Rightarrow> b)
      in if b \<noteq> [] then ''# '' @ title issue @ [CHR 0x0A, CHR 0x0A] @ b else ''# '' @ title issue)"

definition resolvedStatus :: "service \<Rightarrow> GitHubIssue \<Rightarrow> string" where
  "resolvedStatus s issue =
     (if state issue = ''closed'' then ''done'' else resolveOpenIssueStatus s issue)"

text \<open>
  \<open>_updateFeatureFromIssue\<close> mutates the object; the last statement dereferences
  \<open>feature.github!\<close> and throws a TypeError when the link is missing, after the
  other fields were written.
\<close>

definition updateFeatureFromIssue ::
  "env \<Rightarrow> Feature \<Rightarrow> GitHubIssue \<Rightarrow> service \<Rightarrow> error option \<times> Feature \<times> service" where
  "updateFeatureFromIssue e feature issue s =
     (let f1 = feature\<lparr>content := issueContent issue\<rparr>;
          rs = resolvedStatus s issue;
          (f2, s2) =
            (if status f1 = ''done'' \<and> rs \<noteq> ''done''
             then (f1\<lparr>status := rs, completedAt := None\<rparr>, s)
             else if status f1 \<noteq> ''done'' \<and> rs = ''done''
             then (let (t, s') = now e s in (f1\<lparr>status := ''done'', completedAt := Some t\<rparr>, s'))
             else (f1, s));
          f3 = (if truthy (issue_assignee issue) then f2\<lparr>assignee := issue_assignee issue\<rparr> else f2);
          f4 = f3\<lparr>labels := map fst (issue_labels issue)\<rparr>;
          (t1, s3) = now e s2;
          f5 = f4\<lparr>modified := t1\<rparr>;
          (t2, s4) = now e s3
      in case github f5 of
           None \<Rightarrow> (Some (Thrown ''Cannot set properties of undefined (setting 'syncedAt')''), f5, s4)
         | Some g \<Rightarrow> (None, f5\<lparr>github := Some (g\<lparr>syncedAt := t2\<rparr>)\<rparr>, s4))"

text \<open>What \<open>_pushFeatureToGitHub\<close> sends: title, body and state.\<close>

definition pushBody :: "string \<Rightarrow> string" where
  "pushBody c =
     (case match_heading c of
        Some (i, m0, g1) \<Rightarrow> trim (drop (i + length m0) c)
      | None \<Rightarrow> c)"

definition pushState :: "string \<Rightarrow> string" where
  "pushState st = (if st = ''done'' then ''closed'' else ''open'')"

definition pushPayload :: "Feature \<Rightarrow> patch" where
  "pushPayload feature =
     \<lparr>patch_title = getTitleFromContent (content feature),
      patch_body = pushBody (content feature),
      patch_state = pushState (status feature)\<rparr>"

section \<open>GitHubService: requests\<close>

definition getSession :: "env \<Rightarrow> service \<Rightarrow> (error + session) \<times> service" where
  "getSession e s =
     (let s1 = s\<lparr>sessionCalls := Suc (sessionCalls s)\<rparr>
      in case authSession e (sessionCalls s) of
           SessionRejects m \<Rightarrow> (Inl (Thrown m), s1)
         | NoSession \<Rightarrow> (Inl AuthenticationRequired, s1)
         | Session sess \<Rightarrow> (Inr sess, s1\<lparr>this_currentUserLogin := Some (label sess)\<rparr>))"

definition resetDate :: "env \<Rightarrow> response \<Rightarrow> string" where
  "resetDate e r =
     (case rateLimitReset r of
        None \<Rightarrow> ''soon''
      | Some t \<Rightarrow> if t = [] then ''soon'' else resetClock e t)"

text \<open>\<open>_apiRequest\<close>: the parsed data and the status, or what was thrown.\<close>

definition apiRequest ::
  "env \<Rightarrow> http_method \<Rightarrow> string \<Rightarrow> patch option \<Rightarrow> service
     \<Rightarrow> (error + GitHubIssue list \<times> nat) \<times> service" where
  "apiRequest e m p b s =
     (case getSession e s of
        (Inl err, s1) \<Rightarrow> (Inl err, s1)
      | (Inr sess, s1) \<Rightarrow>
          (let rq = \<lparr>req_method = m, req_path = p, req_body = b\<rparr>;
               s2 = s1\<lparr>sent := sent s1 @ [rq]\<rparr>
           in case httpFetch e (length (sent s1)) rq of
                FetchRejects msg \<Rightarrow> (Inl (Thrown msg), s2)
              | Response r \<Rightarrow>
                  if status_code r = 403 \<and> rateLimitRemaining r = Some ''0''
                  then (Inl (RateLimitExceeded (resetDate e r)), s2)
                  else if \<not> ok r
                  then (case body_text r of
                          Inl msg \<Rightarrow> (Inl (Thrown msg), s2)
                        | Inr t \<Rightarrow> (Inl (RemoteAPIError m p (status_code r) t), s2))
                  else (case body_json r of
                          Inl msg \<Rightarrow> (Inl (Thrown msg), s2)
                        | Inr data \<Rightarrow> (Inr (data, status_code r), s2))))"

text \<open>\<open>${this._repo}\<close> inside a template string.\<close>

definition repoText :: "service \<Rightarrow> string" where
  "repoText s = (case this_repo s of None \<Rightarrow> ''null'' | Some r \<Rightarrow> r)"

definition issuesPath :: "service \<Rightarrow> nat \<Rightarrow> string" where
  "issuesPath s page =
     ''/repos/'' @ repoText s @ ''/issues?state=all&per_page=100&page='' @ string_of_nat page"

definition issuePath :: "service \<Rightarrow> int \<Rightarrow> string" where
  "issuePath s n = ''/repos/'' @ repoText s @ ''/issues/'' @ string_of_int n"

definition maxPages :: nat where
  "maxPages = 2"

text \<open>The loop of \<open>_fetchIssues\<close>, from page \<open>page\<close> with \<open>allIssues\<close> collected so far.\<close>

function fetchIssues_loop ::
  "env \<Rightarrow> nat \<Rightarrow> GitHubIssue list \<Rightarrow> service \<Rightarrow> (error + GitHubIssue list) \<times> service" where
  "fetchIssues_loop e page allIssues s =
     (if page \<le> maxPages then
        (case apiRequest e GET (issuesPath s page) None s of
           (Inl err, s1) \<Rightarrow> (Inl err, s1)
         | (Inr (data, st), s1) \<Rightarrow>
             (let issues = filter (\<lambda>item. \<not> pull_request item) data;
                  allIssues1 = allIssues @ issues
              in if length data < 100 then (Inr allIssues1, s1)
                 else fetchIssues_loop e (Suc page) allIssues1 s1))
      else (Inr allIssues, s))"
  by pat_completeness auto
termination
  by (relation "measure (\<lambda>(e, page, allIssues, s). Suc maxPages - page)") auto

declare fetchIssues_loop.simps [simp del]

definition fetchIssues :: "env \<Rightarrow> service \<Rightarrow> (error + GitHubIssue list) \<times> service" where
  "fetchIssues e s = fetchIssues_loop e 1 [] s"

section \<open>GitHubService: creating and pushing one record\<close>

text \<open>
  \<open>_issueToFeature\<close>. \<open>this._repo!\<close> is a string wherever \<open>sync\<close> calls it; the
  empty string stands for the other case.
\<close>

definition issueToFeature :: "env \<Rightarrow> GitHubIssue \<Rightarrow> service \<Rightarrow> Feature \<times> service" where
  "issueToFeature e issue s =
     (let st = resolvedStatus s issue;
          (t, s1) = now e s
      in (\<lparr>id' = generateFeatureFilename e (title issue),
           status = st,
           priority = ''medium'',
           assignee = (if truthy (issue_assignee issue) then issue_assignee issue else None),
           dueDate = None,
           created = t,
           modified = t,
           completedAt = (if st = ''done'' then Some t else None),
           labels = map fst (issue_labels issue),
           order = 0,
           content = issueContent issue,
           filePath = [],
           github = Some \<lparr>issueNumber = number issue,
                           repo = (case this_repo s of None \<Rightarrow> [] | Some r \<Rightarrow> r),
                           htmlUrl = html_url issue,
                           syncedAt = t\<rparr>\<rparr>, s1))"

definition showWarningMessage :: "string \<Rightarrow> service \<Rightarrow> service" where
  "showWarningMessage m s = s\<lparr>warnings := warnings s @ [m]\<rparr>"

text \<open>
  \<open>_pushFeatureToGitHub\<close>: whether the push succeeded, the object after it, and the
  service. A failure of the request is caught here and shown as a warning.
\<close>

definition pushFeatureToGitHub :: "env \<Rightarrow> Feature \<Rightarrow> service \<Rightarrow> bool \<times> Feature \<times> service" where
  "pushFeatureToGitHub e feature s =
     (case github feature of
        None \<Rightarrow> (False, feature, s)
      | Some g \<Rightarrow>
          if \<not> truthy (this_repo s) then (False, feature, s)
          else
            (case apiRequest e PATCH (issuePath s (issueNumber g)) (Some (pushPayload feature)) s of
               (Inr d, s1) \<Rightarrow>
                 (let (t, s2) = now e s1
                  in (True, feature\<lparr>github := Some (g\<lparr>syncedAt := t\<rparr>)\<rparr>, s2))
             | (Inl err, s1) \<Rightarrow>
                 (False, feature,
                  showWarningMessage
                    (''Failed to update GitHub issue #'' @ string_of_int (issueNumber g) @ '': ''
                       @ message err) s1)))"

section \<open>GitHubService: one pass\<close>

text \<open>
  The state of a pass: the service, the objects of the array given to \<open>sync\<close>, the
  lookup \<open>syncedByNumber\<close> (issue number to object, written as its index) and the
  result being filled.
\<close>

record pass =
  svc :: service
  feats :: "Feature list"
  syncedByNumber :: "int \<rightharpoonup> nat"
  result :: SyncResult

definition emptyResult :: SyncResult where
  "emptyResult = \<lparr>created = [], updated = [], pushed = [], errors = []\<rparr>"

text \<open>The loop that fills \<open>syncedByNumber\<close>; \<open>k\<close> is the index of the next object.\<close>

fun indexFeatures :: "string option \<Rightarrow> Feature list \<Rightarrow> nat \<Rightarrow> (int \<rightharpoonup> nat) \<Rightarrow> (int \<rightharpoonup> nat)" where
  "indexFeatures r [] k m = m"
| "indexFeatures r (feature # rest) k m =
     indexFeatures r rest (Suc k)
       (case github feature of
          None \<Rightarrow> m
        | Some g \<Rightarrow> if Some (repo g) = r then m(issueNumber g \<mapsto> k) else m)"

definition applyPull :: "env \<Rightarrow> nat \<Rightarrow> GitHubIssue \<Rightarrow> pass \<Rightarrow> error option \<times> pass" where
  "applyPull e i issue p =
     (case updateFeatureFromIssue e (feats p ! i) issue (svc p) of
        (Some err, f1, s1) \<Rightarrow> (Some err, p\<lparr>svc := s1, feats := (feats p)[i := f1]\<rparr>)
      | (None, f1, s1) \<Rightarrow>
          (None, p\<lparr>svc := s1, feats := (feats p)[i := f1],
                   result := (result p)\<lparr>updated := updated (result p) @ [i]\<rparr>\<rparr>))"

definition applyPush :: "env \<Rightarrow> nat \<Rightarrow> pass \<Rightarrow> error option \<times> pass" where
  "applyPush e i p =
     (case pushFeatureToGitHub e (feats p ! i) (svc p) of
        (was_pushed, f1, s1) \<Rightarrow>
          (None, p\<lparr>svc := s1, feats := (feats p)[i := f1],
                   result := (if was_pushed
                              then (result p)\<lparr>pushed := pushed (result p) @ [i]\<rparr>
                              else result p)\<rparr>))"

text \<open>
  One iteration of the loop over the fetched issues. A reference held by
  \<open>syncedByNumber\<close> is always an object of the array, so index \<open>i\<close> is in range.
\<close>

definition processIssue :: "env \<Rightarrow> GitHubIssue \<Rightarrow> pass \<Rightarrow> error option \<times> pass" where
  "processIssue e issue p =
     (case syncedByNumber p (number issue) of
        None \<Rightarrow>
          (let (feature, s1) = issueToFeature e issue (svc p)
           in (None, p\<lparr>svc := s1,
                        result := (result p)\<lparr>created := SyncResult.created (result p) @ [feature]\<rparr>\<rparr>))
      | Some i \<Rightarrow>
          (case github (feats p ! i) of
             None \<Rightarrow> (Some (Thrown ''Cannot read properties of undefined (reading 'syncedAt')''), p)
           | Some g \<Rightarrow>
               (let issueUpdated = getTime e (updated_at issue);
                    synced = getTime e (syncedAt g);
                    localModified = getTime e (modified (feats p ! i));
                    (err, p1) =
                      (if js_gt issueUpdated synced \<and> js_gt localModified synced then
                         (if js_ge issueUpdated localModified then applyPull e i issue p
                          else applyPush e i p)
                       else if js_gt issueUpdated synced then applyPull e i issue p
                       else if js_gt localModified synced then applyPush e i p
                       else (None, p))
                in case err of
                     Some x \<Rightarrow> (Some x, p1)
                   | None \<Rightarrow>
                       (None, p1\<lparr>syncedByNumber := (syncedByNumber p1)(number issue := None)\<rparr>))))"

fun processIssues :: "env \<Rightarrow> GitHubIssue list \<Rightarrow> pass \<Rightarrow> error option \<times> pass" where
  "processIssues e [] p = (None, p)"
| "processIssues e (issue # rest) p =
     (case processIssue e issue p of
        (Some err, p1) \<Rightarrow> (Some err, p1)
      | (None, p1) \<Rightarrow> processIssues e rest p1)"

text \<open>The body of the \<open>try\<close> block of \<open>sync\<close>: what was thrown, if anything, and the pass.\<close>

definition syncPass :: "env \<Rightarrow> Feature list \<Rightarrow> service \<Rightarrow> error option \<times> pass" where
  "syncPass e features s =
     (case fetchIssues e s of
        (Inl err, s1) \<Rightarrow>
          (Some err, \<lparr>svc = s1, feats = features, syncedByNumber = Map.empty, result = emptyResult\<rparr>)
      | (Inr issues, s1) \<Rightarrow>
          processIssues e issues
            \<lparr>svc = s1, feats = features,
             syncedByNumber = indexFeatures (this_repo s1) features 0 Map.empty,
             result = emptyResult\<rparr>)"

definition initialize :: "env \<Rightarrow> service \<Rightarrow> service" where
  "initialize e s =
     (let s1 = (if truthy (configRepo e) then s\<lparr>this_repo := configRepo e\<rparr>
                else s\<lparr>this_repo := detectRepo e\<rparr>)
      in if truthy (this_repo s1) then onStatusChange Idle None s1 else s1)"

text \<open>\<open>sync\<close>: the result, the objects of the array after the call, and the service.\<close>

definition sync :: "env \<Rightarrow> Feature list \<Rightarrow> service \<Rightarrow> SyncResult \<times> Feature list \<times> service" where
  "sync e features s =
     (if this_syncing s then
        (emptyResult\<lparr>errors := [''Sync already in progress'']\<rparr>, features, s)
      else
        (let s1 = (if \<not> truthy (this_repo s) then initialize e s else s)
         in if \<not> truthy (this_repo s1) then
              (emptyResult\<lparr>errors := [''No GitHub repository configured or detected'']\<rparr>,
               features, s1)
            else
              (let s2 = onStatusChange Syncing None (s1\<lparr>this_syncing := True\<rparr>)
               in case syncPass e features s2 of
                    (None, p) \<Rightarrow>
                      (result p, feats p,
                       (onStatusChange Success None (svc p))\<lparr>this_syncing := False\<rparr>)
                  | (Some err, p) \<Rightarrow>
                      ((result p)\<lparr>errors := errors (result p) @ [message err]\<rparr>, feats p,
                       (onStatusChange Error (Some (message err)) (svc p))
                         \<lparr>this_syncing := False\<rparr>))))"

section \<open>GitHubService: a call of \<open>sync\<close>, cut at its awaits\<close>

text \<open>
  \<open>sync\<close> is an \<open>async\<close> function: a call runs until it awaits, and other calls on
  the same object can run before it is resumed. A call is suspended at
  \<open>await this.initialize()\<close> or, inside the \<open>try\<close> block, at
  \<open>await this._fetchIssues()\<close>, or it has returned.
\<close>

datatype call = Returned SyncResult | AwaitingInitialize | AwaitingFetch

text \<open>
  \<open>initialize\<close> up to its own await, and from there on: a configured repository is
  stored at once, a detected one when \<open>_detectRepo\<close> has answered.
\<close>

definition initializeCall :: "env \<Rightarrow> service \<Rightarrow> service" where
  "initializeCall e s = (if truthy (configRepo e) then initialize e s else s)"

definition initializeReturn :: "env \<Rightarrow> service \<Rightarrow> service" where
  "initializeReturn e s = (if truthy (configRepo e) then s else initialize e s)"

text \<open>Setting the flag and reporting ``syncing'', up to the await of the fetch.\<close>

definition enterTry :: "service \<Rightarrow> call \<times> service" where
  "enterTry s = (AwaitingFetch, onStatusChange Syncing None (s\<lparr>this_syncing := True\<rparr>))"

text \<open>From the call of \<open>sync\<close> to its first await or return.\<close>

definition syncCall :: "env \<Rightarrow> service \<Rightarrow> call \<times> service" where
  "syncCall e s =
     (if this_syncing s then
        (Returned (emptyResult\<lparr>errors := [''Sync already in progress'']\<rparr>), s)
      else if \<not> truthy (this_repo s) then (AwaitingInitialize, initializeCall e s)
      else enterTry s)"

text \<open>From the return of \<open>initialize\<close> to the await of the fetch, or to the return.\<close>

definition afterInitialize :: "env \<Rightarrow> service \<Rightarrow> call \<times> service" where
  "afterInitialize e s =
     (let s1 = initializeReturn e s
      in if \<not> truthy (this_repo s1) then
           (Returned (emptyResult\<lparr>errors := [''No GitHub repository configured or detected'']\<rparr>), s1)
         else enterTry s1)"

text \<open>
  From the fetch to the return: the rest of the \<open>try\<close> block, \<open>catch\<close> and
  \<open>finally\<close>. The requests of the fetch are logged here.
\<close>

definition afterFetch :: "env \<Rightarrow> Feature list \<Rightarrow> service \<Rightarrow> SyncResult \<times> Feature list \<times> service" where
  "afterFetch e features s =
     (case syncPass e features s of
        (None, p) \<Rightarrow>
          (result p, feats p, (onStatusChange Success None (svc p))\<lparr>this_syncing := False\<rparr>)
      | (Some err, p) \<Rightarrow>
          ((result p)\<lparr>errors := errors (result p) @ [message err]\<rparr>, feats p,
           (onStatusChange Error (Some (message err)) (svc p))\<lparr>this_syncing := False\<rparr>))"

text \<open>A call that nothing interrupts: the pieces one after the other.\<close>

definition syncAlone :: "env \<Rightarrow> Feature list \<Rightarrow> service \<Rightarrow> SyncResult \<times> Feature list \<times> service" where
  "syncAlone e features s =
     (case syncCall e s of
        (Returned r, s1) \<Rightarrow> (r, features, s1)
      | (AwaitingFetch, s1) \<Rightarrow> afterFetch e features s1
      | (AwaitingInitialize, s1) \<Rightarrow>
          (case afterInitialize e s1 of
             (Returned r, s2) \<Rightarrow> (r, features, s2)
           | (c, s2) \<Rightarrow> afterFetch e features s2))"

section \<open>The path functions of the platform (POSIX)\<close>

text \<open>
  \<open>featureFileUtils\<close> calls \<open>path.basename\<close>, \<open>path.extname\<close>, \<open>path.join\<close>,
  \<open>path.relative\<close> and \<open>path.sep\<close>. They are modelled on the segments of a path.
\<close>

definition sep :: char where
  "sep = CHR ''/''"

text \<open>\<open>s.split(c)\<close> for a separator of one character.\<close>

fun splitOn :: "char \<Rightarrow> string \<Rightarrow> string list" where
  "splitOn c [] = [[]]"
| "splitOn c (x # xs) =
     (if x = c then [] # splitOn c xs
      else (case splitOn c xs of [] \<Rightarrow> [[x]] | y # ys \<Rightarrow> (x # y) # ys))"

text \<open>\<open>segments.join('/')\<close>.\<close>

fun joinWith :: "char \<Rightarrow> string list \<Rightarrow> string" where
  "joinWith c [] = []"
| "joinWith c [x] = x"
| "joinWith c (x # y # ys) = x @ c # joinWith c (y # ys)"

text \<open>
  \<open>normalizeString\<close>: empty segments and \<open>.\<close> are dropped, \<open>..\<close> removes the
  segment before it, or is kept when there is none to remove and the path is
  relative. \<open>acc\<close> holds the segments kept so far, last one first.
\<close>

fun normalizeSegments :: "bool \<Rightarrow> string list \<Rightarrow> string list \<Rightarrow> string list" where
  "normalizeSegments allowAboveRoot [] acc = rev acc"
| "normalizeSegments allowAboveRoot (s # ss) acc =
     (if s = [] \<or> s = ''.'' then normalizeSegments allowAboveRoot ss acc
      else if s = ''..'' then
        (case acc of
           [] \<Rightarrow> normalizeSegments allowAboveRoot ss (if allowAboveRoot then [''..''] else [])
         | t # ts \<Rightarrow>
             if t = ''..''
             then normalizeSegments allowAboveRoot ss (if allowAboveRoot then ''..'' # acc else acc)
             else normalizeSegments allowAboveRoot ss ts)
      else normalizeSegments allowAboveRoot ss (s # acc))"

definition isAbsolute :: "string \<Rightarrow> bool" where
  "isAbsolute p = (p \<noteq> [] \<and> hd p = sep)"

definition normalize :: "string \<Rightarrow> string" where
  "normalize p =
     (if p = [] then ''.''
      else
        (let trailingSeparator = (last p = sep);
             q = joinWith sep (normalizeSegments (\<not> isAbsolute p) (splitOn sep p) [])
         in if q = [] then (if isAbsolute p then ''/'' else if trailingSeparator then ''./'' else ''.'')
            else (if isAbsolute p then [sep] else []) @ q @ (if trailingSeparator then [sep] else [])))"

definition join :: "string list \<Rightarrow> string" where
  "join args =
     (let parts = filter (\<lambda>a. a \<noteq> []) args
      in if parts = [] then ''.'' else normalize (joinWith sep parts))"

text \<open>\<open>path.basename(p)\<close>: the last run of characters other than \<open>/\<close>.\<close>

definition basename :: "string \<Rightarrow> string" where
  "basename p =
     rev (takeWhile (\<lambda>c. c \<noteq> sep) (dropWhile (\<lambda>c. c = sep) (rev p)))"

text \<open>
  \<open>path.extname(p)\<close>: from the last dot of the base name, unless there is no dot,
  the dot is the first character, or the name is \<open>..\<close>.
\<close>

definition extname :: "string \<Rightarrow> string" where
  "extname p =
     (let b = basename p;
          ext = rev (takeWhile (\<lambda>c. c \<noteq> CHR ''.'') (rev b))
      in if CHR ''.'' \<notin> set b \<or> length ext + 1 = length b \<or> b = ''..'' then []
         else CHR ''.'' # ext)"

text \<open>
  \<open>path.basename(p, suffix)\<close>, exact for a \<open>p\<close> without \<open>/\<close>, which is how
  \<open>moveFeatureFile\<close> calls it.
\<close>

definition basenameWithout :: "string \<Rightarrow> string \<Rightarrow> string" where
  "basenameWithout p suffix =
     (if suffix \<noteq> [] \<and> length suffix \<le> length p then
        (if suffix = p then []
         else
           (let b = basename p
            in if length suffix < length b \<and> drop (length b - length suffix) b = suffix
               then take (length b - length suffix) b else b))
      else basename p)"

text \<open>
  \<open>path.resolve(p)\<close> as the segments of the absolute path, \<open>cwd\<close> being the working
  directory of the process; \<open>path.relative(from, to)\<close> climbs out of what is left of
  \<open>from\<close> after the common segments and descends into what is left of \<open>to\<close>.
\<close>

definition resolve :: "string \<Rightarrow> string \<Rightarrow> string list" where
  "resolve cwd p =
     normalizeSegments False (splitOn sep (if isAbsolute p then p else cwd @ sep # p)) []"

fun dropCommon :: "string list \<Rightarrow> string list \<Rightarrow> string list \<times> string list" where
  "dropCommon (x # xs) (y # ys) = (if x = y then dropCommon xs ys else (x # xs, y # ys))"
| "dropCommon xs ys = (xs, ys)"

definition relativeSegments :: "string \<Rightarrow> string \<Rightarrow> string \<Rightarrow> string list" where
  "relativeSegments cwd from to =
     (case dropCommon (resolve cwd from) (resolve cwd to) of
        (restFrom, restTo) \<Rightarrow> replicate (length restFrom) ''..'' @ restTo)"

definition relative :: "string \<Rightarrow> string \<Rightarrow> string \<Rightarrow> string" where
  "relative cwd from to = joinWith sep (relativeSegments cwd from to)"

section \<open>featureFileUtils\<close>

definition DEFAULT_STATUS_FOLDERS :: "string list" where
  "DEFAULT_STATUS_FOLDERS = [''backlog'', ''todo'', ''in-progress'', ''review'', ''done'']"

text \<open>\<open>getStatusFolders\<close>; \<open>columns\<close> is the configured list of column ids, if any.\<close>

definition getStatusFolders :: "string list option \<Rightarrow> string list" where
  "getStatusFolders columns =
     (case columns of
        None \<Rightarrow> DEFAULT_STATUS_FOLDERS
      | Some cs \<Rightarrow> if length cs > 0 then cs else DEFAULT_STATUS_FOLDERS)"

definition getStatusFromPath :: "string \<Rightarrow> string \<Rightarrow> string \<Rightarrow> string option" where
  "getStatusFromPath cwd file_path featuresDir =
     (let parts = splitOn sep (relative cwd featuresDir file_path)
      in if length parts = 2 then Some (parts ! 0) else None)"

text \<open>
  The file system: what exists at a path (paths are told apart by their text), and
  the operations performed on it.
\<close>

datatype node = File string | Directory

datatype fs_op = Stat string | CreateDirectory string | Rename string string

datatype fs_error = FileNotFound string | FileExists string

record filesystem =
  entries :: "string \<rightharpoonup> node"
  ops :: "fs_op list"

definition fileExists :: "string \<Rightarrow> filesystem \<Rightarrow> bool \<times> filesystem" where
  "fileExists p fs = (entries fs p \<noteq> None, fs\<lparr>ops := ops fs @ [Stat p]\<rparr>)"

text \<open>\<open>workspace.fs.createDirectory\<close>: fails when a file is in the way.\<close>

definition createDirectory :: "string \<Rightarrow> filesystem \<Rightarrow> (fs_error + unit) \<times> filesystem" where
  "createDirectory d fs =
     (let fs1 = fs\<lparr>ops := ops fs @ [CreateDirectory d]\<rparr>
      in case entries fs d of
           Some (File c) \<Rightarrow> (Inl (FileExists d), fs1)
         | _ \<Rightarrow> (Inr (), fs1\<lparr>entries := (entries fs)(d \<mapsto> Directory)\<rparr>))"

text \<open>
  \<open>workspace.fs.rename\<close> with its default options (\<open>overwrite: false\<close>): fails when
  the source is missing or the target exists.
\<close>

definition rename :: "string \<Rightarrow> string \<Rightarrow> filesystem \<Rightarrow> (fs_error + unit) \<times> filesystem" where
  "rename src tgt fs =
     (let fs1 = fs\<lparr>ops := ops fs @ [Rename src tgt]\<rparr>
      in case entries fs src of
           None \<Rightarrow> (Inl (FileNotFound src), fs1)
         | Some n \<Rightarrow>
             if entries fs tgt \<noteq> None then (Inl (FileExists tgt), fs1)
             else (Inr (), fs1\<lparr>entries := (entries fs)(src := None, tgt \<mapsto> n)\<rparr>))"

definition candidate :: "string \<Rightarrow> string \<Rightarrow> string \<Rightarrow> nat \<Rightarrow> string" where
  "candidate targetDir base ext counter =
     join [targetDir, base @ ''-'' @ string_of_nat counter @ ext]"

text \<open>
  The \<open>while\<close> loop of \<open>moveFeatureFile\<close>, entered with the current \<open>targetPath\<close>
  and \<open>counter\<close>; \<open>None\<close> when it never leaves.
\<close>

partial_function (option) freeTarget ::
  "string \<Rightarrow> string \<Rightarrow> string \<Rightarrow> string \<Rightarrow> nat \<Rightarrow> filesystem \<Rightarrow> (string \<times> filesystem) option" where
  "freeTarget targetDir base ext targetPath counter fs =
     (if fst (fileExists targetPath fs)
      then freeTarget targetDir base ext (candidate targetDir base ext counter) (Suc counter)
             (snd (fileExists targetPath fs))
      else Some (targetPath, snd (fileExists targetPath fs)))"

declare freeTarget.simps [code]

definition moveFeatureFile ::
  "string \<Rightarrow> string \<Rightarrow> string \<Rightarrow> filesystem \<Rightarrow> ((fs_error + string) \<times> filesystem) option" where
  "moveFeatureFile currentPath featuresDir newStatus fs =
     (let filename = basename currentPath;
          targetDir = join [featuresDir, newStatus];
          targetPath = join [targetDir, filename]
      in if currentPath = targetPath then Some (Inr currentPath, fs)
         else
           (let ext = extname filename;
                base = basenameWithout filename ext
            in case freeTarget targetDir base ext targetPath 1 fs of
                 None \<Rightarrow> None
               | Some (target, fs1) \<Rightarrow>
                   (case createDirectory targetDir fs1 of
                      (Inl err, fs2) \<Rightarrow> Some (Inl err, fs2)
                    | (Inr u, fs2) \<Rightarrow>
                        (case rename currentPath target fs2 of
                           (Inl err, fs3) \<Rightarrow> Some (Inl err, fs3)
                         | (Inr u, fs3) \<Rightarrow> Some (Inr target, fs3)))))"

section \<open>Notions used by the properties\<close>

text \<open>The object after \<open>_updateFeatureFromIssue\<close>.\<close>

definition pulled :: "env \<Rightarrow> Feature \<Rightarrow> GitHubIssue \<Rightarrow> service \<Rightarrow> Feature" where
  "pulled e f issue s = fst (snd (updateFeatureFromIssue e f issue s))"

text \<open>
  The remote record right after a push of \<open>f\<close>, with no other change: it carries the
  title, body and state that were sent (an empty body may come back as null).
\<close>

definition pushedIssue :: "Feature \<Rightarrow> GitHubIssue \<Rightarrow> bool" where
  "pushedIssue f issue =
     (title issue = patch_title (pushPayload f)
      \<and> (case body issue of None \<Rightarrow> [] | Some b \<Rightarrow> b) = patch_body (pushPayload f)
      \<and> state issue = patch_state (pushPayload f))"

text \<open>
  A content whose heading line has a title that is not blank, or that has no heading
  line and neither leading nor trailing white space.
\<close>

definition stableContent :: "string \<Rightarrow> bool" where
  "stableContent c =
     (case match_heading c of
        Some (i, m0, g1) \<Rightarrow> trim g1 \<noteq> []
      | None \<Rightarrow> trim c = c)"

text \<open>
  The request for page \<open>page\<close> of the issue list, and the items the remote returns
  for it when it is the \<open>page\<close>-th request sent from service state \<open>s\<close>.
\<close>

definition pageRequest :: "service \<Rightarrow> nat \<Rightarrow> request" where
  "pageRequest s page = \<lparr>req_method = GET, req_path = issuesPath s page, req_body = None\<rparr>"



text \<open>
  The service when the \<open>try\<close> block of \<open>sync\<close> is entered: after the repository
  was looked up if it was not known, with the flag set and ``syncing'' reported.
\<close>

definition prepared :: "env \<Rightarrow> service \<Rightarrow> service" where
  "prepared e s = (if \<not> truthy (this_repo s) then initialize e s else s)"

definition started :: "env \<Rightarrow> service \<Rightarrow> service" where
  "started e s = onStatusChange Syncing None ((prepared e s)\<lparr>this_syncing := True\<rparr>)"

text \<open>
  Every reference in \<open>syncedByNumber\<close> is an object of the array, linked under that
  issue number.
\<close>

definition linked :: "pass \<Rightarrow> bool" where
  "linked p =
     (\<forall>n i. syncedByNumber p n = Some i \<longrightarrow>
        i < length (feats p) \<and> map_option issueNumber (github (feats p ! i)) = Some n)"

text \<open>The three instants the loop compares for an object and an issue.\<close>

definition issueUpdated :: "env \<Rightarrow> GitHubIssue \<Rightarrow> int option" where
  "issueUpdated e issue = getTime e (updated_at issue)"

definition localModified :: "env \<Rightarrow> Feature \<Rightarrow> int option" where
  "localModified e f = getTime e (modified f)"

definition lastSynced :: "env \<Rightarrow> Feature \<Rightarrow> int option" where
  "lastSynced e f = (case github f of None \<Rightarrow> None | Some g \<Rightarrow> getTime e (syncedAt g))"

text \<open>
  The branch the loop takes for a paired object: the remote side is applied when it
  changed after the last sync and the local side did not, or did but not later than
  the remote side; the local side is sent in the mirrored case.
\<close>

definition pullChosen :: "env \<Rightarrow> Feature \<Rightarrow> GitHubIssue \<Rightarrow> bool" where
  "pullChosen e f issue =
     (js_gt (issueUpdated e issue) (lastSynced e f)
      \<and> (js_gt (localModified e f) (lastSynced e f)
           \<longrightarrow> js_ge (issueUpdated e issue) (localModified e f)))"

definition pushChosen :: "env \<Rightarrow> Feature \<Rightarrow> GitHubIssue \<Rightarrow> bool" where
  "pushChosen e f issue =
     (js_gt (localModified e f) (lastSynced e f)
      \<and> (js_gt (issueUpdated e issue) (lastSynced e f)
           \<longrightarrow> \<not> js_ge (issueUpdated e issue) (localModified e f)))"

text \<open>
  Between two states of a pass: object \<open>j\<close> is the same and in the same lists; and
  what every iteration leaves alone.
\<close>

definition untouched :: "nat \<Rightarrow> pass \<Rightarrow> pass \<Rightarrow> bool" where
  "untouched j p p' =
     (feats p' ! j = feats p ! j
      \<and> (j \<in> set (updated (result p')) \<longleftrightarrow> j \<in> set (updated (result p)))
      \<and> (j \<in> set (pushed (result p')) \<longleftrightarrow> j \<in> set (pushed (result p))))"

definition sameLinks :: "pass \<Rightarrow> pass \<Rightarrow> bool" where
  "sameLinks p p' =
     (length (feats p') = length (feats p)
      \<and> (\<forall>j. map_option issueNumber (github (feats p' ! j)) = map_option issueNumber (github (feats p ! j))
             \<and> map_option repo (github (feats p' ! j)) = map_option repo (github (feats p ! j)))
      \<and> this_repo (svc p') = this_repo (svc p)
      \<and> this_syncing (svc p') = this_syncing (svc p)
      \<and> errors (result p') = errors (result p))"

text \<open>The objects a pass creates are linked to the repository of the service.\<close>

definition createdHere :: "pass \<Rightarrow> pass \<Rightarrow> bool" where
  "createdHere p p' =
     (\<forall>f \<in> set (SyncResult.created (result p')).
        f \<in> set (SyncResult.created (result p))
        \<or> map_option repo (github f) = Some (case this_repo (svc p) of None \<Rightarrow> [] | Some r \<Rightarrow> r))"

text \<open>The pass as the loop over the fetched issues starts.\<close>

definition initialPass :: "service \<Rightarrow> Feature list \<Rightarrow> pass" where
  "initialPass s features =
     \<lparr>svc = s, feats = features,
      syncedByNumber = indexFeatures (this_repo s) features 0 Map.empty,
      result = emptyResult\<rparr>"

text \<open>
  Service state \<open>s'\<close> comes after \<open>s\<close> in a pass: the repository is the same, and
  the sessions asked for, the requests sent and the warnings shown in \<open>s\<close> are
  still there, followed by the later ones.
\<close>

definition follows :: "service \<Rightarrow> service \<Rightarrow> bool" where
  "follows s s' =
     (this_repo s' = this_repo s \<and> sessionCalls s \<le> sessionCalls s'
      \<and> (\<exists>rs. sent s' = sent s @ rs) \<and> (\<exists>ws. warnings s' = warnings s @ ws))"

text \<open>
  Record \<open>f'\<close> is record \<open>f\<close> updated from \<open>issue\<close>: the content is the heading with
  the issue's title, followed by a blank line and the body when there is one; labels
  and assignee are the issue's (the assignee is kept when the issue has none); a
  closed issue makes the record done, stamping \<open>completedAt\<close> if it was not; an
  open issue takes a done record back to ``todo'' or ``backlog'' and clears
  \<open>completedAt\<close>, and leaves the status of any other record; \<open>modified\<close> and
  \<open>syncedAt\<close> are two successive readings of the clock; nothing else changes.
\<close>

definition pulledRecord :: "env \<Rightarrow> Feature \<Rightarrow> GitHubIssue \<Rightarrow> Feature \<Rightarrow> bool" where
  "pulledRecord e f issue f' =
     (content f' = ''# '' @ title issue
         @ (case body issue of None \<Rightarrow> [] | Some b \<Rightarrow> if b = [] then [] else [CHR 0x0A, CHR 0x0A] @ b)
      \<and> labels f' = map fst (issue_labels issue)
      \<and> assignee f' = (if truthy (issue_assignee issue) then issue_assignee issue else assignee f)
      \<and> (if state issue = ''closed''
         then status f' = ''done''
              \<and> (if status f = ''done'' then completedAt f' = completedAt f
                 else \<exists>k. completedAt f' = Some (nowISO e k))
         else if status f = ''done''
         then (status f' = ''todo'' \<or> status f' = ''backlog'') \<and> completedAt f' = None
         else status f' = status f \<and> completedAt f' = completedAt f)
      \<and> (\<exists>k. modified f' = nowISO e k \<and> map_option syncedAt (github f') = Some (nowISO e (Suc k)))
      \<and> id' f' = id' f \<and> Feature.created f' = Feature.created f \<and> priority f' = priority f
      \<and> dueDate f' = dueDate f \<and> order f' = order f \<and> filePath f' = filePath f
      \<and> map_option issueNumber (github f') = map_option issueNumber (github f)
      \<and> map_option repo (github f') = map_option repo (github f)
      \<and> map_option htmlUrl (github f') = map_option htmlUrl (github f))"

text \<open>
  The request that pushes record \<open>f\<close>, linked by \<open>g\<close>, to repository \<open>r\<close>: a PATCH of
  the issue with the title, the body and the state of the record. The remote accepts
  the \<open>b\<close>-th request sent when its reply has a success status and a body that parses.
\<close>

definition patchRequest :: "string \<Rightarrow> Feature \<Rightarrow> GitHubMeta \<Rightarrow> request" where
  "patchRequest r f g =
     \<lparr>req_method = PATCH,
      req_path = ''/repos/'' @ r @ ''/issues/'' @ string_of_int (issueNumber g),
      req_body = Some \<lparr>patch_title = getTitleFromContent (content f),
                       patch_body = pushBody (content f),
                       patch_state = (if status f = ''done'' then ''closed'' else ''open'')\<rparr>\<rparr>"

definition accepted :: "env \<Rightarrow> nat \<Rightarrow> request \<Rightarrow> bool" where
  "accepted e b rq =
     (case httpFetch e b rq of
        FetchRejects m \<Rightarrow> False
      | Response r \<Rightarrow> ok r \<and> (case body_json r of Inl m \<Rightarrow> False | Inr d \<Rightarrow> True))"

definition failedPushWarning :: "GitHubMeta \<Rightarrow> error \<Rightarrow> string" where
  "failedPushWarning g err =
     ''Failed to update GitHub issue #'' @ string_of_int (issueNumber g) @ '': '' @ message err"

text \<open>
  What a push of record \<open>f\<close>, linked by \<open>g\<close>, did between service states \<open>s\<close> and
  \<open>s'\<close>, \<open>f'\<close> being the record and \<open>w\<close> the outcome: one more session was asked for;
  if it was granted, the request was sent, as the next one, and the outcome is
  whether the remote accepted it; a success stamps \<open>syncedAt\<close> with a reading of the
  clock and changes nothing else; on any failure the record is as it was and a
  warning that names the issue is shown.
\<close>

definition pushedRecord ::
  "env \<Rightarrow> Feature \<Rightarrow> GitHubMeta \<Rightarrow> string \<Rightarrow> service \<Rightarrow> bool \<Rightarrow> Feature \<Rightarrow> service \<Rightarrow> bool" where
  "pushedRecord e f g r s w f' s' =
     (sessionCalls s' = Suc (sessionCalls s)
      \<and> (case authSession e (sessionCalls s) of
           Session sess \<Rightarrow>
             sent s' = sent s @ [patchRequest r f g]
             \<and> w = accepted e (length (sent s)) (patchRequest r f g)
             \<and> (if w then warnings s' = warnings s
                        \<and> (\<exists>k. f' = f\<lparr>github := Some (g\<lparr>syncedAt := nowISO e k\<rparr>)\<rparr>)
                else f' = f \<and> (\<exists>err. warnings s' = warnings s @ [failedPushWarning g err]))
         | NoSession \<Rightarrow>
             \<not> w \<and> f' = f \<and> sent s' = sent s
             \<and> warnings s' = warnings s @ [failedPushWarning g AuthenticationRequired]
         | SessionRejects m \<Rightarrow>
             \<not> w \<and> f' = f \<and> sent s' = sent s
             \<and> warnings s' = warnings s @ [failedPushWarning g (Thrown m)]))"

text \<open>
  In the outcome \<open>out\<close> of \<open>sync\<close> on \<open>features\<close>: record \<open>i\<close> was updated from
  \<open>issue\<close> and is listed as updated only.
\<close>

definition pullApplied ::
  "env \<Rightarrow> Feature list \<Rightarrow> GitHubIssue \<Rightarrow> nat \<Rightarrow> SyncResult \<times> Feature list \<times> service \<Rightarrow> bool" where
  "pullApplied e features issue i out =
     (i \<in> set (updated (fst out)) \<and> i \<notin> set (pushed (fst out))
      \<and> pulledRecord e (features ! i) issue (fst (snd out) ! i))"

text \<open>
  In the outcome \<open>out\<close> of \<open>sync\<close> on \<open>features\<close>, called in service state \<open>s\<close>:
  record \<open>i\<close> was pushed and is not listed as updated. A session was asked for
  during the pass (the \<open>a\<close>-th). If it was granted, the request for the record was
  sent during the pass (as the \<open>b\<close>-th): when the remote accepted it the record is
  listed as pushed and only its \<open>syncedAt\<close> changed, to a reading of the clock;
  when it did not, or when no session was granted, the record is as it was, is not
  listed as pushed, and a warning naming the issue was shown during the pass.
\<close>

definition pushApplied ::
  "env \<Rightarrow> Feature list \<Rightarrow> nat \<Rightarrow> service \<Rightarrow> SyncResult \<times> Feature list \<times> service \<Rightarrow> bool" where
  "pushApplied e features i s out =
     (i \<notin> set (updated (fst out))
      \<and> (\<exists>g r a.
           github (features ! i) = Some g \<and> this_repo (snd (snd out)) = Some r
           \<and> sessionCalls s \<le> a \<and> a < sessionCalls (snd (snd out))
           \<and> (case authSession e a of
                Session sess \<Rightarrow>
                  (\<exists>b. length (sent s) \<le> b \<and> b < length (sent (snd (snd out)))
                     \<and> sent (snd (snd out)) ! b = patchRequest r (features ! i) g
                     \<and> (if accepted e b (patchRequest r (features ! i) g)
                        then i \<in> set (pushed (fst out))
                             \<and> (\<exists>k. fst (snd out) ! i
                                      = (features ! i)\<lparr>github := Some (g\<lparr>syncedAt := nowISO e k\<rparr>)\<rparr>)
                        else i \<notin> set (pushed (fst out)) \<and> fst (snd out) ! i = features ! i
                             \<and> (\<exists>err. failedPushWarning g err
                                   \<in> set (drop (length (warnings s)) (warnings (snd (snd out)))))))
              | NoSession \<Rightarrow>
                  i \<notin> set (pushed (fst out)) \<and> fst (snd out) ! i = features ! i
                  \<and> failedPushWarning g AuthenticationRequired
                      \<in> set (drop (length (warnings s)) (warnings (snd (snd out))))
              | SessionRejects m \<Rightarrow>
                  i \<notin> set (pushed (fst out)) \<and> fst (snd out) ! i = features ! i
                  \<and> failedPushWarning g (Thrown m)
                      \<in> set (drop (length (warnings s)) (warnings (snd (snd out)))))))"

text \<open>The number a string of digits stands for.\<close>

definition digits_value :: "string \<Rightarrow> nat" where
  "digits_value ds = foldl (\<lambda>a c. 10 * a + (of_char c - 48)) 0 ds"

text \<open>A name that is one segment of a path: not empty, without \<open>/\<close>, neither \<open>.\<close> nor \<open>..\<close>.\<close>

definition simpleName :: "string \<Rightarrow> bool" where
  "simpleName x = (x \<noteq> [] \<and> sep \<notin> set x \<and> x \<noteq> ''.'' \<and> x \<noteq> ''..'')"

text \<open>
  The names the loop of \<open>moveFeatureFile\<close> tries: the target first, then the
  candidates numbered from \<open>counter\<close>.
\<close>

fun tried :: "string \<Rightarrow> (nat \<Rightarrow> string) \<Rightarrow> nat \<Rightarrow> nat \<Rightarrow> string" where
  "tried targetPath cand counter 0 = targetPath"
| "tried targetPath cand counter (Suc j) = cand (counter + j)"

text \<open>
  For a move of \<open>currentPath\<close> to \<open>newStatus\<close> under \<open>featuresDir\<close>: the directory
  and the path aimed at, the candidate with suffix \<open>-k\<close>, and the \<open>j\<close>-th name the
  loop tries (the target, then the candidates from 1).
\<close>

definition targetDirOf :: "string \<Rightarrow> string \<Rightarrow> string" where
  "targetDirOf featuresDir newStatus = join [featuresDir, newStatus]"

definition targetPathOf :: "string \<Rightarrow> string \<Rightarrow> string \<Rightarrow> string" where
  "targetPathOf currentPath featuresDir newStatus =
     join [targetDirOf featuresDir newStatus, basename currentPath]"

definition candidateOf :: "string \<Rightarrow> string \<Rightarrow> string \<Rightarrow> nat \<Rightarrow> string" where
  "candidateOf currentPath featuresDir newStatus =
     candidate (targetDirOf featuresDir newStatus)
       (basenameWithout (basename currentPath) (extname (basename currentPath)))
       (extname (basename currentPath))"

definition attemptOf :: "string \<Rightarrow> string \<Rightarrow> string \<Rightarrow> nat \<Rightarrow> string" where
  "attemptOf currentPath featuresDir newStatus =
     tried (targetPathOf currentPath featuresDir newStatus)
       (candidateOf currentPath featuresDir newStatus) 1"

text \<open>The absolute path with the given segments.\<close>

definition pathOf :: "string list \<Rightarrow> string" where
  "pathOf segments = sep # joinWith sep segments"

section \<open>Concrete inputs\<close>

definition exampleTime :: "string \<Rightarrow> int option" where
  "exampleTime s =
     (if s = ''T0'' then Some 0 else if s = ''T3'' then Some 3 else if s = ''T5'' then Some 5
      else if s = ''T9'' then Some 9 else None)"

definition exampleEnv :: "(nat \<Rightarrow> request \<Rightarrow> fetch_reply) \<Rightarrow> env" where
  "exampleEnv net =
     \<lparr>configRepo = Some ''o/r'', detectRepo = None,
      authSession = (\<lambda>k. Session \<lparr>accessToken = ''t'', label = ''me''\<rparr>),
      httpFetch = net,
      nowISO = (\<lambda>k. ''T9''),
      getTime = exampleTime,
      resetClock = (\<lambda>s. s),
      generateFeatureFilename = (\<lambda>s. s)\<rparr>"

definition offline :: "nat \<Rightarrow> request \<Rightarrow> fetch_reply" where
  "offline k rq = FetchRejects ''offline''"

definition exampleService :: service where
  "exampleService =
     \<lparr>this_repo = Some ''o/r'', this_syncing = False, this_currentUserLogin = Some ''me'',
      sessionCalls = 0, sent = [], clock = 0, warnings = [], statusChanges = []\<rparr>"

definition exampleFeature :: "int \<Rightarrow> string \<Rightarrow> string \<Rightarrow> string \<Rightarrow> Feature" where
  "exampleFeature n st c m =
     \<lparr>id' = ''a'', status = st, priority = ''medium'', assignee = None, dueDate = None,
      created = ''T0'', modified = m, completedAt = None, labels = [], order = 0,
      content = c, filePath = ''/w/features/todo/a.md'',
      github = Some \<lparr>issueNumber = n, repo = ''o/r'', htmlUrl = ''u'', syncedAt = ''T3''\<rparr>\<rparr>"

definition exampleIssue :: "int \<Rightarrow> string \<Rightarrow> string \<Rightarrow> string \<Rightarrow> string \<Rightarrow> GitHubIssue" where
  "exampleIssue n t b st u =
     \<lparr>number = n, title = t, body = Some b, state = st, html_url = ''u'', updated_at = u,
      pull_request = False, issue_assignee = None, issue_labels = [(''bug'', ''red'')]\<rparr>"

definition notesFeature :: Feature where
  "notesFeature = exampleFeature 7 ''todo'' (''notes'' @ [CHR 0x0A]) ''T5''"

definition notesIssue :: GitHubIssue where
  "notesIssue = exampleIssue 7 ''Untitled'' (''notes'' @ [CHR 0x0A]) ''open'' ''T5''"

definition blankFeature :: Feature where
  "blankFeature = exampleFeature 7 ''todo'' ''#  '' ''T5''"

definition blankIssue :: GitHubIssue where
  "blankIssue = exampleIssue 7 [] [] ''open'' ''T5''"

definition loginFeature :: Feature where
  "loginFeature = exampleFeature 7 ''done'' (''# Fix login'' @ [CHR 0x0A, CHR 0x0A] @ ''Steps'') ''T5''"

definition loginIssue :: GitHubIssue where
  "loginIssue = exampleIssue 7 ''Fix login'' ''Steps'' ''closed'' ''T5''"

definition reopenedIssue :: GitHubIssue where
  "reopenedIssue = exampleIssue 7 ''Fix login'' ''Steps'' ''open'' ''T5''"

definition plainIssue :: GitHubIssue where
  "plainIssue = exampleIssue 7 ''Fix login'' ''Steps'' ''open'' ''T5''"


definition okResponse :: "GitHubIssue list \<Rightarrow> fetch_reply" where
  "okResponse d =
     Response \<lparr>status_code = 200, rateLimitRemaining = Some ''4999'', rateLimitReset = None,
               body_text = Inr [], body_json = Inr d\<rparr>"

definition rateLimited :: fetch_reply where
  "rateLimited =
     Response \<lparr>status_code = 403, rateLimitRemaining = Some ''0'', rateLimitReset = Some ''1700000000'',
               body_text = Inr ''API rate limit exceeded'', body_json = Inl ''Unexpected token''\<rparr>"

definition serverError :: fetch_reply where
  "serverError =
     Response \<lparr>status_code = 500, rateLimitRemaining = Some ''4999'', rateLimitReset = None,
               body_text = Inr ''boom'', body_json = Inl ''Unexpected token''\<rparr>"


text \<open>
  A board of seven records, all last synced at T3, and the issues fetched for it:
  record 0 changed remotely only, record 1 locally only, record 2 on neither side,
  record 3 on both sides at the same instant, record 4 on both sides and locally
  later; record 5 has no link and record 6 is linked to another repository.
\<close>

definition boardFeatures :: "Feature list" where
  "boardFeatures =
     [exampleFeature 7 ''todo'' ''# Seven'' ''T0'',
      exampleFeature 8 ''todo'' ''# Eight'' ''T5'',
      exampleFeature 9 ''todo'' ''# Nine'' ''T0'',
      exampleFeature 10 ''todo'' ''# Ten'' ''T5'',
      exampleFeature 11 ''done'' ''# Eleven'' ''T9'',
      (exampleFeature 12 ''todo'' ''# Local'' ''T5'')\<lparr>github := None\<rparr>,
      (exampleFeature 13 ''todo'' ''# Other'' ''T5'')
        \<lparr>github := Some \<lparr>issueNumber = 13, repo = ''x/y'', htmlUrl = ''u'', syncedAt = ''T3''\<rparr>\<rparr>]"

definition boardIssues :: "GitHubIssue list" where
  "boardIssues =
     [exampleIssue 7 ''Seven'' ''remote text'' ''open'' ''T5'',
      exampleIssue 8 ''Eight'' [] ''open'' ''T0'',
      exampleIssue 9 ''Nine'' [] ''open'' ''T3'',
      exampleIssue 10 ''Ten'' ''remote text'' ''closed'' ''T5'',
      exampleIssue 11 ''Eleven'' ''remote text'' ''open'' ''T5'',
      exampleIssue 13 ''Thirteen'' [] ''open'' ''T9'']"

definition board :: "nat \<Rightarrow> request \<Rightarrow> fetch_reply" where
  "board k rq = (if k = 0 then okResponse boardIssues else okResponse [])"

definition boardFailing :: "nat \<Rightarrow> request \<Rightarrow> fetch_reply" where
  "boardFailing k rq = (if k = 0 then okResponse boardIssues else serverError)"

definition secondPageLimited :: "nat \<Rightarrow> request \<Rightarrow> fetch_reply" where
  "secondPageLimited k rq = (if k = 0 then okResponse (replicate 100 plainIssue) else rateLimited)"

definition busyService :: service where
  "busyService = exampleService\<lparr>this_syncing := True\<rparr>"

definition failingPass :: pass where
  "failingPass =
     initialPass
       (snd (fetchIssues (exampleEnv boardFailing) (started (exampleEnv boardFailing) exampleService)))
       boardFeatures"

definition eightLink :: GitHubMeta where
  "eightLink = \<lparr>issueNumber = 8, repo = ''o/r'', htmlUrl = ''u'', syncedAt = ''T3''\<rparr>"

text \<open>
  A board on disk where \<open>done/a.md\<close> and \<open>done/a-1.md\<close> are taken, and two other
  files named \<open>a.md\<close>.
\<close>

definition exampleDisk :: filesystem where
  "exampleDisk =
     \<lparr>entries = map_of
        [(''/w/features/todo/a.md'', File ''A''),
         (''/w/features/backlog/a.md'', File ''B''),
         (''/w/features/done/a.md'', File ''old''),
         (''/w/features/done/a-1.md'', File ''older''),
         (''/w/features/done'', Directory)],
      ops = []\<rparr>"

definition diskAfterFirstMove :: filesystem where
  "diskAfterFirstMove =
     snd (the (moveFeatureFile ''/w/features/todo/a.md'' ''/w/features'' ''done'' exampleDisk))"

text \<open>
  A service on which \<open>sync\<close> has not run yet, a remote that answers every listing
  with the issues of the board, and a workspace whose repository is found by
  detection. Two calls of \<open>sync\<close> on the board, the second made while the first
  awaits \<open>initialize\<close>: the states after each piece, in the order they run.
\<close>

definition freshService :: service where
  "freshService = exampleService\<lparr>this_repo := None, this_currentUserLogin := None\<rparr>"

definition steady :: "nat \<Rightarrow> request \<Rightarrow> fetch_reply" where
  "steady k rq = (if req_method rq = GET then okResponse boardIssues else okResponse [])"

definition detecting :: env where
  "detecting = (exampleEnv steady)\<lparr>configRepo := None, detectRepo := Some ''o/r''\<rparr>"

definition firstCalled :: "call \<times> service" where
  "firstCalled = syncCall detecting freshService"

definition secondCalled :: "call \<times> service" where
  "secondCalled = syncCall detecting (snd firstCalled)"

definition firstResumed :: "call \<times> service" where
  "firstResumed = afterInitialize detecting (snd secondCalled)"

definition secondResumed :: "call \<times> service" where
  "secondResumed = afterInitialize detecting (snd firstResumed)"

definition firstDone :: "SyncResult \<times> Feature list \<times> service" where
  "firstDone = afterFetch detecting boardFeatures (snd secondResumed)"

definition secondDone :: "SyncResult \<times> Feature list \<times> service" where
  "secondDone = afterFetch detecting (fst (snd firstDone)) (snd (snd firstDone))"

section \<open>Trimming and the heading pattern\<close>

lemma trim_length_le: "length (trim s) \<le> length (dropWhile WhiteSpace s)"
  unfolding trim_def
  by (metis length_dropWhile_le length_rev)

lemma trim_fixed_hd: "trim t = t \<Longrightarrow> t \<noteq> [] \<Longrightarrow> \<not> WhiteSpace (hd t)"
proof (rule ccontr)
  assume a: "trim t = t" "t \<noteq> []" "\<not> \<not> WhiteSpace (hd t)"
  then obtain c r where t: "t = c # r" and c: "WhiteSpace c" by (cases t) auto
  have "length (dropWhile WhiteSpace t) \<le> length r" using t c by (simp add: length_dropWhile_le)
  with trim_length_le[of t] a(1) t show False by simp
qed

lemma dropWhile_idem_hd: "dropWhile P xs = [] \<or> \<not> P (hd (dropWhile P xs))"
  by (metis hd_dropWhile)

lemma dropWhile_fix: "xs = [] \<or> \<not> P (hd xs) \<Longrightarrow> dropWhile P xs = xs"
  by (cases xs) auto

lemma rev_dropWhile_rev_hd: "xs \<noteq> [] \<Longrightarrow> \<not> P (hd xs) \<Longrightarrow> rev (dropWhile P (rev xs)) \<noteq> [] \<and> hd (rev (dropWhile P (rev xs))) = hd xs"
  by (cases xs) (auto simp: dropWhile_append hd_append)

lemma trim_trim: "trim (trim s) = trim s"
proof -
  let ?a = "dropWhile WhiteSpace s"
  let ?t = "rev (dropWhile WhiteSpace (rev ?a))"
  have t: "trim s = ?t" by (simp add: trim_def)
  have 1: "dropWhile WhiteSpace ?t = ?t"
  proof (cases "?a = []")
    case True
    then have "?t = []" by (simp del: dropWhile_eq_Nil_conv)
    then show ?thesis by (simp del: dropWhile_eq_Nil_conv)
  next
    case False
    then have "\<not> WhiteSpace (hd ?a)" using dropWhile_idem_hd[of WhiteSpace s] by blast
    with False have "?t \<noteq> [] \<and> hd ?t = hd ?a" by (rule rev_dropWhile_rev_hd)
    then show ?thesis using \<open>\<not> WhiteSpace (hd ?a)\<close> by (intro dropWhile_fix) simp
  qed
  have 2: "dropWhile WhiteSpace (rev ?t) = rev ?t"
    by simp
  show ?thesis unfolding t unfolding trim_def[of ?t] 1 2 by simp
qed

lemma trim_ws_prefix: "\<forall>c\<in>set p. WhiteSpace c \<Longrightarrow> trim (p @ s) = trim s"
  unfolding trim_def by (simp add: dropWhile_append)

lemma heading_tail_line: "heading_tail k r = Some (j, g) \<Longrightarrow> g \<noteq> [] \<and> (\<forall>c\<in>set g. \<not> LineTerminator c) \<and> 0 < j \<and> j \<le> k"
  apply (induction k arbitrary: j g)
   apply simp
  apply (auto simp: Let_def split: if_splits dest: set_takeWhileD)
  done

lemma heading_at_group: "heading_at s = Some (m0, g) \<Longrightarrow> g \<noteq> [] \<and> (\<forall>c\<in>set g. \<not> LineTerminator c)"
  by (auto simp: heading_at_def split: list.splits if_splits option.splits dest: heading_tail_line)

lemma heading_search_group: "heading_search bol i s = Some (j, m0, g) \<Longrightarrow> g \<noteq> [] \<and> (\<forall>c\<in>set g. \<not> LineTerminator c)"
  apply (induction s arbitrary: bol i)
   apply simp
  apply (auto split: option.splits if_splits dest: heading_at_group)
  done

lemma match_rebuilt:
  assumes "t \<noteq> []" "\<not> WhiteSpace (hd t)" "\<forall>c\<in>set t. \<not> LineTerminator c"
    and "rest = [] \<or> LineTerminator (hd rest)"
  shows "match_heading (''# '' @ t @ rest) = Some (0, ''# '' @ t, t)"
proof -
  obtain c r where t: "t = c # r" using assms(1) by (cases t) auto
  have tw: "takeWhile WhiteSpace ('' '' @ t @ rest) = '' ''"
    using assms(2) t by (simp add: WhiteSpace_def)
  have line: "takeWhile (\<lambda>c. \<not> LineTerminator c) (t @ rest) = t"
    using assms(3,4) by (cases rest) (auto simp: takeWhile_append2 )
  have "heading_tail (Suc 0) ('' '' @ t @ rest) = Some (Suc 0, t)"
    using line assms(1) by (simp add: Let_def)
  then have "heading_at (''# '' @ t @ rest) = Some (''# '' @ t, t)"
    using tw by (simp add: heading_at_def)
  then show ?thesis by (simp add: match_heading_def)
qed

lemma payload_rebuilt:
  assumes t: "t \<noteq> []" "trim t = t" "\<forall>c\<in>set t. \<not> LineTerminator c"
    and b: "trim b = b"
    and i: "title issue = t" "(case body issue of None \<Rightarrow> [] | Some x \<Rightarrow> x) = b"
  shows "getTitleFromContent (issueContent issue) = t \<and> pushBody (issueContent issue) = b"
proof -
  let ?rest = "if b \<noteq> [] then [CHR 0x0A, CHR 0x0A] @ b else []"
  have c: "issueContent issue = ''# '' @ t @ ?rest"
    using i by (simp add: issueContent_def Let_def)
  have hd: "\<not> WhiteSpace (hd t)" using t by (intro trim_fixed_hd)
  have "?rest = [] \<or> LineTerminator (hd ?rest)" by (simp add: LineTerminator_def)
  from match_rebuilt[OF t(1) hd t(3) this]
  have m: "match_heading (issueContent issue) = Some (0, ''# '' @ t, t)" unfolding c .
  have "trim ?rest = b"
  proof (cases "b = []")
    case True then show ?thesis by (simp add: trim_def)
  next
    case False
    have "trim ([CHR 0x0A, CHR 0x0A] @ b) = trim b"
      by (rule trim_ws_prefix) (simp add: WhiteSpace_def)
    then show ?thesis using False b by simp
  qed
  then have "pushBody (issueContent issue) = b"
    unfolding pushBody_def m unfolding c by simp
  moreover have "getTitleFromContent (issueContent issue) = t"
    unfolding getTitleFromContent_def m using t(2) by simp
  ultimately show ?thesis by simp
qed

lemma pulled_content: "content (pulled e f issue s) = issueContent issue"
  by (simp add: pulled_def updateFeatureFromIssue_def Let_def now_def split: prod.splits option.splits)

lemma pulled_status:
  "status (pulled e f issue s) =
     (if (status f = ''done'') \<noteq> (resolvedStatus s issue = ''done'') then resolvedStatus s issue else status f)"
  by (auto simp add: pulled_def updateFeatureFromIssue_def Let_def now_def split: prod.splits option.splits)

lemma resolveOpen_not_done: "resolveOpenIssueStatus s issue \<noteq> ''done''"
  by (simp add: resolveOpenIssueStatus_def)

lemma pulled_status_pushed:
  "state issue = pushState (status f) \<Longrightarrow> status (pulled e f issue s) = status f"
  by (auto simp: pulled_status resolvedStatus_def pushState_def resolveOpen_not_done split: if_splits)

lemma payload_stable:
  assumes "stableContent c"
  shows "getTitleFromContent c \<noteq> [] \<and> trim (getTitleFromContent c) = getTitleFromContent c
     \<and> (\<forall>x\<in>set (getTitleFromContent c). \<not> LineTerminator x) \<and> trim (pushBody c) = pushBody c"
proof (cases "match_heading c")
  case None
  then show ?thesis using assms
    by (simp add: stableContent_def getTitleFromContent_def pushBody_def trim_def LineTerminator_def WhiteSpace_def)
next
  case (Some m)
  obtain i m0 g1 where m: "m = (i, m0, g1)" by (cases m) auto
  have g: "\<forall>x\<in>set g1. \<not> LineTerminator x"
    using Some m heading_search_group[of True 0 c i m0 g1] by (simp add: match_heading_def)
  have "set (trim g1) \<subseteq> set g1"
    unfolding trim_def by (metis set_dropWhileD set_rev subsetI)
  with g have "\<forall>x\<in>set (trim g1). \<not> LineTerminator x" by blast
  then show ?thesis using assms Some m
    by (simp add: stableContent_def getTitleFromContent_def pushBody_def trim_trim)
qed

section \<open>Pull of one record: frame and round trip\<close>

text \<open>
  C10. A pull leaves id, created, priority, dueDate, order, filePath and the issue
  number, repository and URL of the link as they were; and when status or completedAt
  changes, the record moved into or out of ``done'' and now has the resolved status.
\<close>

theorem pull_frame:
  "id' (pulled e f issue s) = id' f
   \<and> Feature.created (pulled e f issue s) = Feature.created f
   \<and> priority (pulled e f issue s) = priority f
   \<and> dueDate (pulled e f issue s) = dueDate f
   \<and> order (pulled e f issue s) = order f
   \<and> filePath (pulled e f issue s) = filePath f
   \<and> map_option issueNumber (github (pulled e f issue s)) = map_option issueNumber (github f)
   \<and> map_option repo (github (pulled e f issue s)) = map_option repo (github f)
   \<and> map_option htmlUrl (github (pulled e f issue s)) = map_option htmlUrl (github f)
   \<and> (status (pulled e f issue s) \<noteq> status f \<or> completedAt (pulled e f issue s) \<noteq> completedAt f
        \<longrightarrow> (status f = ''done'') \<noteq> (status (pulled e f issue s) = ''done'')
            \<and> status (pulled e f issue s) = resolvedStatus s issue)"
  by (auto simp add: pulled_def updateFeatureFromIssue_def Let_def now_def
      split: prod.splits option.splits if_splits)

theorem pull_frame_witness:
  "status (pulled (exampleEnv offline) loginFeature reopenedIssue exampleService) \<noteq> status loginFeature
   \<and> (status loginFeature = ''done'')
        \<noteq> (status (pulled (exampleEnv offline) loginFeature reopenedIssue exampleService) = ''done'')
   \<and> id' (pulled (exampleEnv offline) loginFeature reopenedIssue exampleService) = id' loginFeature"
proof -
  have h: "status (pulled (exampleEnv offline) loginFeature reopenedIssue exampleService)
      \<noteq> status loginFeature"
    by code_simp
  from pull_frame [of "exampleEnv offline" loginFeature reopenedIssue exampleService] h
  show ?thesis by simp
qed

text \<open>
  C9, as stated, fails: a content without a heading line is sent whole as the body,
  white space included, and comes back trimmed; a heading line whose title is blank
  is sent with an empty title and comes back as ``Untitled''.
\<close>

theorem roundtrip_counterexample:
  "github notesFeature \<noteq> None \<and> pushedIssue notesFeature notesIssue
   \<and> patch_body (pushPayload (pulled (exampleEnv offline) notesFeature notesIssue exampleService))
       \<noteq> patch_body (pushPayload notesFeature)
   \<and> github blankFeature \<noteq> None \<and> pushedIssue blankFeature blankIssue
   \<and> patch_title (pushPayload (pulled (exampleEnv offline) blankFeature blankIssue exampleService))
       \<noteq> patch_title (pushPayload blankFeature)"
  by code_simp

text \<open>
  C9, amended. For a record whose content has a heading line with a title that is not
  blank, or has no heading line and no white space at either end, pushing it and
  applying the resulting remote record back gives a record that pushes the same title,
  body and state.
\<close>

theorem roundtrip_stable:
  assumes "pushedIssue f issue" and "stableContent (content f)"
  shows "pushPayload (pulled e f issue s) = pushPayload f"
proof -
  from payload_stable[OF assms(2)] assms(1)
  have "getTitleFromContent (issueContent issue) = getTitleFromContent (content f)
      \<and> pushBody (issueContent issue) = pushBody (content f)"
    by (intro payload_rebuilt) (simp_all add: pushedIssue_def pushPayload_def)
  moreover have "status (pulled e f issue s) = status f"
    using assms(1) by (intro pulled_status_pushed) (simp add: pushedIssue_def pushPayload_def)
  ultimately show ?thesis by (simp add: pushPayload_def pulled_content)
qed

theorem roundtrip_stable_witness:
  "pushedIssue loginFeature loginIssue \<and> stableContent (content loginFeature)
   \<and> pushPayload (pulled (exampleEnv offline) loginFeature loginIssue exampleService)
       = pushPayload loginFeature
   \<and> pushPayload loginFeature
       = \<lparr>patch_title = ''Fix login'', patch_body = ''Steps'', patch_state = ''closed''\<rparr>"
proof -
  have a: "pushedIssue loginFeature loginIssue"
    by code_simp
  have b: "stableContent (content loginFeature)"
    by code_simp
  have p: "pushPayload loginFeature
      = \<lparr>patch_title = ''Fix login'', patch_body = ''Steps'', patch_state = ''closed''\<rparr>"
    by code_simp
  from a b p roundtrip_stable [OF a b, of "exampleEnv offline" exampleService]
  show ?thesis by simp
qed

section \<open>Requests\<close>

lemma getSession_fields:
  "getSession e s = (r, s1) \<Longrightarrow>
     sent s1 = sent s \<and> this_repo s1 = this_repo s \<and> this_syncing s1 = this_syncing s
     \<and> clock s1 = clock s \<and> warnings s1 = warnings s \<and> statusChanges s1 = statusChanges s"
  by (auto simp: getSession_def Let_def split: session_reply.splits)

lemma apiRequest_fields:
  "apiRequest e m p b s = (r, s1) \<Longrightarrow>
     this_repo s1 = this_repo s \<and> this_syncing s1 = this_syncing s
     \<and> clock s1 = clock s \<and> warnings s1 = warnings s \<and> statusChanges s1 = statusChanges s
     \<and> (sent s1 = sent s \<or> sent s1 = sent s @ [\<lparr>req_method = m, req_path = p, req_body = b\<rparr>])"
  by (auto simp: apiRequest_def Let_def split: prod.splits sum.splits fetch_reply.splits if_splits
      dest!: getSession_fields)


lemma apiRequest_rate_limit:
  assumes "authSession e (sessionCalls s) = Session sess"
    and "httpFetch e (length (sent s)) \<lparr>req_method = m, req_path = p, req_body = b\<rparr> = Response r"
    and "status_code r = 403" and "rateLimitRemaining r = Some ''0''"
  shows "fst (apiRequest e m p b s) = Inl (RateLimitExceeded (resetDate e r))"
  using assms by (simp add: apiRequest_def getSession_def Let_def)

lemma apiRequest_failure:
  assumes "authSession e (sessionCalls s) = Session sess"
    and "httpFetch e (length (sent s)) \<lparr>req_method = m, req_path = p, req_body = b\<rparr> = Response r"
    and "\<not> ok r" and "\<not> (status_code r = 403 \<and> rateLimitRemaining r = Some ''0'')"
    and "body_text r = Inr t"
  shows "fst (apiRequest e m p b s) = Inl (RemoteAPIError m p (status_code r) t)"
  using assms by (simp add: apiRequest_def getSession_def Let_def)

lemma message_rate_limit_distinct:
  "message (RateLimitExceeded d) \<noteq> message (RemoteAPIError m p st t)"
  by (cases m) simp_all


lemma fetchIssues_loop_3: "fetchIssues_loop e 3 acc s = (Inr acc, s)"
  by (subst fetchIssues_loop.simps) (simp add: maxPages_def)

lemma fetchIssues_loop_2:
  "fetchIssues_loop e 2 acc s =
     (case apiRequest e GET (issuesPath s 2) None s of
        (Inl err, s1) \<Rightarrow> (Inl err, s1)
      | (Inr (d, st), s1) \<Rightarrow> (Inr (acc @ filter (\<lambda>item. \<not> pull_request item) d), s1))"
  by (subst fetchIssues_loop.simps)
     (simp add: maxPages_def Let_def fetchIssues_loop_3 split: prod.splits sum.splits)

lemma fetchIssues_unfold:
  "fetchIssues e s =
     (case apiRequest e GET (issuesPath s 1) None s of
        (Inl err, s1) \<Rightarrow> (Inl err, s1)
      | (Inr (d, st), s1) \<Rightarrow>
          if length d < 100 then (Inr (filter (\<lambda>item. \<not> pull_request item) d), s1)
          else fetchIssues_loop e 2 (filter (\<lambda>item. \<not> pull_request item) d) s1)"
  unfolding fetchIssues_def
  by (subst fetchIssues_loop.simps)
     (simp add: maxPages_def Let_def del: One_nat_def split: prod.splits sum.splits)

lemma fetchIssues_cases [case_names fail1 one fail2 two]:
  obtains
    err s1 where "apiRequest e GET (issuesPath s 1) None s = (Inl err, s1)"
      and "fetchIssues e s = (Inl err, s1)"
  | d st s1 where "apiRequest e GET (issuesPath s 1) None s = (Inr (d, st), s1)"
      and "length d < 100"
      and "fetchIssues e s = (Inr (filter (\<lambda>item. \<not> pull_request item) d), s1)"
  | d st s1 err s2 where "apiRequest e GET (issuesPath s 1) None s = (Inr (d, st), s1)"
      and "100 \<le> length d"
      and "apiRequest e GET (issuesPath s1 2) None s1 = (Inl err, s2)"
      and "fetchIssues e s = (Inl err, s2)"
  | d st s1 d2 st2 s2 where "apiRequest e GET (issuesPath s 1) None s = (Inr (d, st), s1)"
      and "100 \<le> length d"
      and "apiRequest e GET (issuesPath s1 2) None s1 = (Inr (d2, st2), s2)"
      and "fetchIssues e s = (Inr (filter (\<lambda>item. \<not> pull_request item) d
                                    @ filter (\<lambda>item. \<not> pull_request item) d2), s2)"
proof -
  obtain r1 s1 where a1: "apiRequest e GET (issuesPath s 1) None s = (r1, s1)"
    by (cases "apiRequest e GET (issuesPath s 1) None s")
  show ?thesis
  proof (cases r1)
    case (Inl err)
    with a1 have "fetchIssues e s = (Inl err, s1)" by (simp add: fetchIssues_unfold)
    with a1 Inl show ?thesis using that(1) by simp
  next
    case (Inr x)
    obtain d st where x: "x = (d, st)" by (cases x)
    show ?thesis
    proof (cases "length d < 100")
      case True
      with a1 Inr x have "fetchIssues e s = (Inr (filter (\<lambda>item. \<not> pull_request item) d), s1)"
        by (simp add: fetchIssues_unfold)
      with a1 Inr x True show ?thesis using that(2) by simp
    next
      case False
      then have ge: "100 \<le> length d" by simp
      obtain r2 s2 where a2: "apiRequest e GET (issuesPath s1 2) None s1 = (r2, s2)"
        by (cases "apiRequest e GET (issuesPath s1 2) None s1")
      have f: "fetchIssues e s = fetchIssues_loop e 2 (filter (\<lambda>item. \<not> pull_request item) d) s1"
        using a1 Inr x False by (simp add: fetchIssues_unfold)
      show ?thesis
      proof (cases r2)
        case (Inl err)
        with a2 f have "fetchIssues e s = (Inl err, s2)" by (simp add: fetchIssues_loop_2)
        with a1 a2 Inr x ge Inl show ?thesis using that(3) by simp
      next
        case (Inr y)
        obtain d2 st2 where y: "y = (d2, st2)" by (cases y)
        with a2 f Inr have "fetchIssues e s = (Inr (filter (\<lambda>item. \<not> pull_request item) d
                                    @ filter (\<lambda>item. \<not> pull_request item) d2), s2)"
          by (simp add: fetchIssues_loop_2)
        with a1 a2 \<open>r1 = Inr x\<close> x ge Inr y show ?thesis using that(4) by simp
      qed
    qed
  qed
qed

lemma fetchIssues_fields:
  "fetchIssues e s = (r, s') \<Longrightarrow>
     this_repo s' = this_repo s \<and> this_syncing s' = this_syncing s
     \<and> clock s' = clock s \<and> warnings s' = warnings s \<and> statusChanges s' = statusChanges s"
proof (cases e s rule: fetchIssues_cases)
  case (fail1 err s1)
  assume "fetchIssues e s = (r, s')"
  with fail1 apiRequest_fields[OF fail1(1)] show ?thesis by simp
next
  case (one d st s1)
  assume "fetchIssues e s = (r, s')"
  with one apiRequest_fields[OF one(1)] show ?thesis by simp
next
  case (fail2 d st s1 err s2)
  assume "fetchIssues e s = (r, s')"
  with fail2 apiRequest_fields[OF fail2(1)] apiRequest_fields[OF fail2(3)] show ?thesis by simp
next
  case (two d st s1 d2 st2 s2)
  assume "fetchIssues e s = (r, s')"
  with two apiRequest_fields[OF two(1)] apiRequest_fields[OF two(3)] show ?thesis by simp
qed








section \<open>One iteration of the pass\<close>

lemma now_fields:
  "now e s = (t, s1) \<Longrightarrow>
     this_repo s1 = this_repo s \<and> this_syncing s1 = this_syncing s \<and> sent s1 = sent s
     \<and> warnings s1 = warnings s \<and> statusChanges s1 = statusChanges s
     \<and> this_currentUserLogin s1 = this_currentUserLogin s"
  by (auto simp: now_def)

lemma update_linked_ok:
  "github f = Some g \<Longrightarrow> fst (updateFeatureFromIssue e f issue s) = None"
  by (auto simp: updateFeatureFromIssue_def Let_def now_def split: prod.splits option.splits)

lemma update_fields:
  "updateFeatureFromIssue e f issue s = (err, f1, s1) \<Longrightarrow>
     this_repo s1 = this_repo s \<and> this_syncing s1 = this_syncing s \<and> sent s1 = sent s
     \<and> warnings s1 = warnings s \<and> statusChanges s1 = statusChanges s"
  by (auto simp: updateFeatureFromIssue_def Let_def now_def split: prod.splits option.splits if_splits)

lemma pulled_link:
  "map_option issueNumber (github (pulled e f issue s)) = map_option issueNumber (github f)
   \<and> map_option repo (github (pulled e f issue s)) = map_option repo (github f)"
  by (auto simp: pulled_def updateFeatureFromIssue_def Let_def now_def
      split: prod.splits option.splits if_splits)

lemma applyPull_linked:
  assumes "github (feats p ! i) = Some g"
  shows "applyPull e i issue p =
     (None, p\<lparr>svc := snd (snd (updateFeatureFromIssue e (feats p ! i) issue (svc p))),
              feats := (feats p)[i := pulled e (feats p ! i) issue (svc p)],
              result := (result p)\<lparr>updated := updated (result p) @ [i]\<rparr>\<rparr>)"
proof -
  obtain err f1 s1 where u: "updateFeatureFromIssue e (feats p ! i) issue (svc p) = (err, f1, s1)"
    by (cases "updateFeatureFromIssue e (feats p ! i) issue (svc p)")
  from update_linked_ok[OF assms, of e issue "svc p"] u have "err = None" by simp
  then show ?thesis using u by (simp add: applyPull_def pulled_def)
qed

lemma update_fields_snd:
  "this_repo (snd (snd (updateFeatureFromIssue e f issue s))) = this_repo s
   \<and> this_syncing (snd (snd (updateFeatureFromIssue e f issue s))) = this_syncing s
   \<and> sent (snd (snd (updateFeatureFromIssue e f issue s))) = sent s
   \<and> warnings (snd (snd (updateFeatureFromIssue e f issue s))) = warnings s"
  using update_fields[of e f issue s] by (cases "updateFeatureFromIssue e f issue s") auto

text \<open>The two ways a push ends.\<close>

lemma push_cases [consumes 1, case_names not_sent ok failed]:
  assumes "github f = Some g"
  obtains
    "\<not> truthy (this_repo s)" and "pushFeatureToGitHub e f s = (False, f, s)"
  | d s1 t s2 where "truthy (this_repo s)"
      and "apiRequest e PATCH (issuePath s (issueNumber g)) (Some (pushPayload f)) s = (Inr d, s1)"
      and "now e s1 = (t, s2)"
      and "pushFeatureToGitHub e f s = (True, f\<lparr>github := Some (g\<lparr>syncedAt := t\<rparr>)\<rparr>, s2)"
  | err s1 where "truthy (this_repo s)"
      and "apiRequest e PATCH (issuePath s (issueNumber g)) (Some (pushPayload f)) s = (Inl err, s1)"
      and "pushFeatureToGitHub e f s =
             (False, f, showWarningMessage
                (''Failed to update GitHub issue #'' @ string_of_int (issueNumber g) @ '': ''
                   @ message err) s1)"
proof (cases "truthy (this_repo s)")
  case False
  then show ?thesis using assms that(1) by (simp add: pushFeatureToGitHub_def)
next
  case True
  obtain r s1 where a: "apiRequest e PATCH (issuePath s (issueNumber g)) (Some (pushPayload f)) s = (r, s1)"
    by (cases "apiRequest e PATCH (issuePath s (issueNumber g)) (Some (pushPayload f)) s")
  show ?thesis
  proof (cases r)
    case (Inl err)
    then show ?thesis using True a assms that(3)[of err s1] by (simp add: pushFeatureToGitHub_def)
  next
    case (Inr d)
    obtain t s2 where n: "now e s1 = (t, s2)" by (cases "now e s1")
    then show ?thesis using True a Inr assms that(2)[of d s1 t s2]
      by (simp add: pushFeatureToGitHub_def)
  qed
qed

lemma push_fields:
  assumes "pushFeatureToGitHub e f s = (w, f1, s1)"
  shows "this_repo s1 = this_repo s \<and> this_syncing s1 = this_syncing s
     \<and> map_option issueNumber (github f1) = map_option issueNumber (github f)
     \<and> map_option repo (github f1) = map_option repo (github f)
     \<and> (\<not> w \<longrightarrow> f1 = f)"
proof (cases "github f")
  case None
  then show ?thesis using assms by (simp add: pushFeatureToGitHub_def)
next
  case (Some g)
  then show ?thesis
  proof (cases rule: push_cases[where e = e and s = s])
    case not_sent
    then show ?thesis using assms by simp
  next
    case (ok d s1' t s2)
    with assms apiRequest_fields[OF ok(2)] now_fields[OF ok(3)] Some show ?thesis by auto
  next
    case (failed err s1')
    with assms apiRequest_fields[OF failed(2)] Some show ?thesis
      by (auto simp: showWarningMessage_def)
  qed
qed

lemma issueToFeature_fields:
  "issueToFeature e issue s = (f, s1) \<Longrightarrow>
     this_repo s1 = this_repo s \<and> this_syncing s1 = this_syncing s
     \<and> map_option repo (github f) = Some (case this_repo s of None \<Rightarrow> [] | Some r \<Rightarrow> r)
     \<and> map_option issueNumber (github f) = Some (number issue)"
  by (auto simp: issueToFeature_def Let_def now_def split: prod.splits)

text \<open>
  The ways one iteration ends when every reference is linked: a record is created,
  or the paired record is pulled, pushed or skipped.
\<close>

lemma processIssue_cases [consumes 1, case_names create pull push skip]:
  assumes "linked p"
  obtains
    f s1 where "syncedByNumber p (number issue) = None"
      and "issueToFeature e issue (svc p) = (f, s1)"
      and "processIssue e issue p =
             (None, p\<lparr>svc := s1,
                      result := (result p)\<lparr>created := SyncResult.created (result p) @ [f]\<rparr>\<rparr>)"
  | i where "syncedByNumber p (number issue) = Some i"
      and "pullChosen e (feats p ! i) issue"
      and "processIssue e issue p =
             (None, (snd (applyPull e i issue p))
                      \<lparr>syncedByNumber := (syncedByNumber p)(number issue := None)\<rparr>)"
  | i where "syncedByNumber p (number issue) = Some i"
      and "pushChosen e (feats p ! i) issue"
      and "processIssue e issue p =
             (None, (snd (applyPush e i p))
                      \<lparr>syncedByNumber := (syncedByNumber p)(number issue := None)\<rparr>)"
  | i where "syncedByNumber p (number issue) = Some i"
      and "\<not> js_gt (issueUpdated e issue) (lastSynced e (feats p ! i))"
      and "\<not> js_gt (localModified e (feats p ! i)) (lastSynced e (feats p ! i))"
      and "processIssue e issue p =
             (None, p\<lparr>syncedByNumber := (syncedByNumber p)(number issue := None)\<rparr>)"
proof (cases "syncedByNumber p (number issue)")
  case None
  obtain f s1 where c: "issueToFeature e issue (svc p) = (f, s1)"
    by (cases "issueToFeature e issue (svc p)")
  with None show ?thesis using that(1)[of f s1] by (simp add: processIssue_def)
next
  case (Some i)
  with assms obtain g where g: "github (feats p ! i) = Some g"
    by (auto simp: linked_def)
  have ls: "lastSynced e (feats p ! i) = getTime e (syncedAt g)"
    using g by (simp add: lastSynced_def)
  from applyPull_linked[OF g, of e issue]
  have pl: "fst (applyPull e i issue p) = None"
    and plm: "syncedByNumber (snd (applyPull e i issue p)) = syncedByNumber p" by simp_all
  have ps: "fst (applyPush e i p) = None"
    and psm: "syncedByNumber (snd (applyPush e i p)) = syncedByNumber p"
    by (auto simp: applyPush_def split: prod.splits)
  let ?R = "js_gt (issueUpdated e issue) (lastSynced e (feats p ! i))"
  let ?L = "js_gt (localModified e (feats p ! i)) (lastSynced e (feats p ! i))"
  let ?G = "js_ge (issueUpdated e issue) (localModified e (feats p ! i))"
  have unfold: "processIssue e issue p =
      (let (err, p1) =
             (if ?R \<and> ?L then (if ?G then applyPull e i issue p else applyPush e i p)
              else if ?R then applyPull e i issue p
              else if ?L then applyPush e i p
              else (None, p))
       in case err of Some x \<Rightarrow> (Some x, p1)
          | None \<Rightarrow> (None, p1\<lparr>syncedByNumber := (syncedByNumber p1)(number issue := None)\<rparr>))"
    using Some g by (simp add: processIssue_def Let_def issueUpdated_def localModified_def ls)
  consider (a) "?R" "?L \<longrightarrow> ?G" | (b) "?L" "?R \<longrightarrow> \<not> ?G" | (c) "\<not> ?R" "\<not> ?L"
    by blast
  then show ?thesis
  proof cases
    case a
    then have "processIssue e issue p =
        (None, (snd (applyPull e i issue p))\<lparr>syncedByNumber := (syncedByNumber p)(number issue := None)\<rparr>)"
      using pl plm by (auto simp: unfold split: prod.splits)
    with a Some show ?thesis using that(2)[of i] by (simp add: pullChosen_def)
  next
    case b
    then have "processIssue e issue p =
        (None, (snd (applyPush e i p))\<lparr>syncedByNumber := (syncedByNumber p)(number issue := None)\<rparr>)"
      using ps psm by (auto simp: unfold split: prod.splits)
    with b Some show ?thesis using that(3)[of i] by (simp add: pushChosen_def)
  next
    case c
    then have "processIssue e issue p =
        (None, p\<lparr>syncedByNumber := (syncedByNumber p)(number issue := None)\<rparr>)"
      by (simp add: unfold)
    with c Some show ?thesis using that(4)[of i] by simp
  qed
qed

section \<open>The loop over the fetched issues\<close>

lemma untouched_refl: "untouched j p p"
  by (simp add: untouched_def)

lemma untouched_trans: "untouched j p q \<Longrightarrow> untouched j q r \<Longrightarrow> untouched j p r"
  by (simp add: untouched_def)

lemma sameLinks_refl: "sameLinks p p"
  by (simp add: sameLinks_def)

lemma sameLinks_trans: "sameLinks p q \<Longrightarrow> sameLinks q r \<Longrightarrow> sameLinks p r"
  by (simp add: sameLinks_def)

lemma nth_update_links:
  assumes "map_option issueNumber (github v) = map_option issueNumber (github (xs ! i))"
    and "map_option repo (github v) = map_option repo (github (xs ! i))"
  shows "map_option issueNumber (github (xs[i := v] ! j)) = map_option issueNumber (github (xs ! j))
     \<and> map_option repo (github (xs[i := v] ! j)) = map_option repo (github (xs ! j))"
proof (cases "i < length xs")
  case True
  with assms show ?thesis by (cases "j = i") simp_all
next
  case False
  then show ?thesis by (simp add: list_update_beyond)
qed

lemma applyPush_shape:
  obtains w f1 s1 where "pushFeatureToGitHub e (feats p ! i) (svc p) = (w, f1, s1)"
    and "snd (applyPush e i p) =
           p\<lparr>svc := s1, feats := (feats p)[i := f1],
             result := (if w then (result p)\<lparr>pushed := pushed (result p) @ [i]\<rparr> else result p)\<rparr>"
proof -
  obtain w f1 s1 where u: "pushFeatureToGitHub e (feats p ! i) (svc p) = (w, f1, s1)"
    by (cases "pushFeatureToGitHub e (feats p ! i) (svc p)")
  then show ?thesis using that[of w f1 s1] by (simp add: applyPush_def)
qed

lemma applyPull_sameLinks:
  assumes "github (feats p ! i) = Some g"
  shows "sameLinks p (snd (applyPull e i issue p))"
  unfolding sameLinks_def applyPull_linked[OF assms]
  using pulled_link[of e "feats p ! i" issue "svc p"] update_fields_snd[of e "feats p ! i" issue "svc p"]
  by (simp add: nth_update_links)

lemma applyPush_sameLinks: "sameLinks p (snd (applyPush e i p))"
proof (rule applyPush_shape[of e p i])
  fix w f1 s1
  assume u: "pushFeatureToGitHub e (feats p ! i) (svc p) = (w, f1, s1)"
    and v: "snd (applyPush e i p) =
           p\<lparr>svc := s1, feats := (feats p)[i := f1],
             result := (if w then (result p)\<lparr>pushed := pushed (result p) @ [i]\<rparr> else result p)\<rparr>"
  show ?thesis unfolding sameLinks_def v using push_fields[OF u]
    by (simp add: nth_update_links)
qed

lemma applyPull_untouched:
  assumes "github (feats p ! i) = Some g" and "j \<noteq> i"
  shows "untouched j p (snd (applyPull e i issue p))"
  unfolding untouched_def applyPull_linked[OF assms(1)] using assms(2) by simp

lemma applyPush_untouched:
  assumes "j \<noteq> i"
  shows "untouched j p (snd (applyPush e i p))"
proof (rule applyPush_shape[of e p i])
  fix w f1 s1
  assume v: "snd (applyPush e i p) =
           p\<lparr>svc := s1, feats := (feats p)[i := f1],
             result := (if w then (result p)\<lparr>pushed := pushed (result p) @ [i]\<rparr> else result p)\<rparr>"
  show ?thesis unfolding untouched_def v using assms by simp
qed

text \<open>What one iteration does to the state of the pass.\<close>

lemma processIssue_ok:
  assumes "linked p"
  shows "fst (processIssue e issue p) = None"
  using assms by (cases rule: processIssue_cases[where e = e and issue = issue]) simp_all

lemma processIssue_index:
  assumes "linked p"
  shows "syncedByNumber (snd (processIssue e issue p)) = (syncedByNumber p)(number issue := None)"
  using assms
proof (cases rule: processIssue_cases[where e = e and issue = issue])
  case (create f s1)
  then show ?thesis by (simp add: fun_eq_iff)
qed simp_all

lemma processIssue_sameLinks:
  assumes "linked p"
  shows "sameLinks p (snd (processIssue e issue p))"
  using assms
proof (cases rule: processIssue_cases[where e = e and issue = issue])
  case (create f s1)
  with issueToFeature_fields[OF create(2)] show ?thesis by (simp add: sameLinks_def)
next
  case (pull i)
  with assms obtain g where "github (feats p ! i) = Some g" by (auto simp: linked_def)
  from applyPull_sameLinks[OF this, of e issue] pull show ?thesis by (simp add: sameLinks_def)
next
  case (push i)
  from applyPush_sameLinks[of p e i] push show ?thesis by (simp add: sameLinks_def)
next
  case (skip i)
  then show ?thesis by (simp add: sameLinks_def)
qed

lemma processIssue_untouched:
  assumes "linked p" and "syncedByNumber p (number issue) \<noteq> Some j"
  shows "untouched j p (snd (processIssue e issue p))"
  using assms(1)
proof (cases rule: processIssue_cases[where e = e and issue = issue])
  case (create f s1)
  then show ?thesis by (simp add: untouched_def)
next
  case (pull i)
  with assms obtain g where "github (feats p ! i) = Some g" and "j \<noteq> i" by (auto simp: linked_def)
  from applyPull_untouched[OF this, of e issue] pull show ?thesis by (simp add: untouched_def)
next
  case (push i)
  with assms have "j \<noteq> i" by auto
  from applyPush_untouched[OF this, of p e] push show ?thesis by (simp add: untouched_def)
next
  case (skip i)
  then show ?thesis by (simp add: untouched_def)
qed

lemma linked_step:
  assumes "linked p" and "sameLinks p q" and "\<forall>n i. syncedByNumber q n = Some i \<longrightarrow> syncedByNumber p n = Some i"
  shows "linked q"
  using assms unfolding linked_def sameLinks_def by metis

lemma processIssue_linked:
  assumes "linked p"
  shows "linked (snd (processIssue e issue p))"
  using assms processIssue_sameLinks[OF assms, of e issue]
proof (rule linked_step)
  show "\<forall>n i. syncedByNumber (snd (processIssue e issue p)) n = Some i \<longrightarrow> syncedByNumber p n = Some i"
    unfolding processIssue_index[OF assms] by (simp split: if_splits)
qed

lemma processIssue_created:
  assumes "linked p"
  shows "createdHere p (snd (processIssue e issue p))"
  using assms
proof (cases rule: processIssue_cases[where e = e and issue = issue])
  case (create f s1)
  with issueToFeature_fields[OF create(2)] show ?thesis by (auto simp: createdHere_def)
next
  case (pull i)
  with assms obtain g where "github (feats p ! i) = Some g" by (auto simp: linked_def)
  from applyPull_linked[OF this, of e issue] pull show ?thesis by (simp add: createdHere_def)
next
  case (push i)
  show ?thesis
  proof (rule applyPush_shape[of e p i])
    fix w f1 s1
    assume "snd (applyPush e i p) =
           p\<lparr>svc := s1, feats := (feats p)[i := f1],
             result := (if w then (result p)\<lparr>pushed := pushed (result p) @ [i]\<rparr> else result p)\<rparr>"
    with push show ?thesis by (simp add: createdHere_def)
  qed
next
  case (skip i)
  then show ?thesis by (simp add: createdHere_def)
qed

lemma processIssues_append:
  "processIssues e (xs @ ys) p =
     (case processIssues e xs p of
        (Some err, p1) \<Rightarrow> (Some err, p1)
      | (None, p1) \<Rightarrow> processIssues e ys p1)"
  by (induction xs arbitrary: p) (auto split: prod.splits option.splits)

lemma processIssues_step:
  assumes "linked p"
  shows "processIssues e (issue # rest) p = processIssues e rest (snd (processIssue e issue p))"
  using processIssue_ok[OF assms, of e issue]
  by (cases "processIssue e issue p") simp

lemma processIssues_summary:
  assumes "linked p"
  shows "fst (processIssues e issues p) = None
     \<and> linked (snd (processIssues e issues p))
     \<and> sameLinks p (snd (processIssues e issues p))
     \<and> createdHere p (snd (processIssues e issues p))
     \<and> (\<forall>n. syncedByNumber (snd (processIssues e issues p)) n
             = (if n \<in> number ` set issues then None else syncedByNumber p n))"
  using assms
proof (induction issues arbitrary: p)
  case Nil
  then show ?case by (simp add: sameLinks_refl createdHere_def)
next
  case (Cons issue rest)
  let ?q = "snd (processIssue e issue p)"
  have q: "linked ?q" using Cons.prems by (rule processIssue_linked)
  note ih = Cons.IH[OF q]
  have st: "processIssues e (issue # rest) p = processIssues e rest ?q"
    using Cons.prems by (rule processIssues_step)
  have sl: "sameLinks p ?q" using Cons.prems by (rule processIssue_sameLinks)
  have cr: "createdHere p ?q" using Cons.prems by (rule processIssue_created)
  have "createdHere p (snd (processIssues e rest ?q))"
    using cr ih sl unfolding createdHere_def sameLinks_def by metis
  moreover have "sameLinks p (snd (processIssues e rest ?q))"
    using sl ih by (blast intro: sameLinks_trans)
  moreover have "\<forall>n. syncedByNumber (snd (processIssues e rest ?q)) n
             = (if n \<in> number ` set (issue # rest) then None else syncedByNumber p n)"
    using ih processIssue_index[OF Cons.prems, of e issue] by simp
  ultimately show ?case using ih st by simp
qed

lemma processIssues_untouched:
  assumes "linked p" and "\<forall>issue \<in> set issues. syncedByNumber p (number issue) \<noteq> Some j"
  shows "untouched j p (snd (processIssues e issues p))"
  using assms
proof (induction issues arbitrary: p)
  case Nil
  then show ?case by (simp add: untouched_refl)
next
  case (Cons issue rest)
  let ?q = "snd (processIssue e issue p)"
  have q: "linked ?q" using Cons.prems(1) by (rule processIssue_linked)
  have st: "processIssues e (issue # rest) p = processIssues e rest ?q"
    using Cons.prems(1) by (rule processIssues_step)
  have u: "untouched j p ?q" using Cons.prems by (intro processIssue_untouched) simp_all
  have "\<forall>x \<in> set rest. syncedByNumber ?q (number x) \<noteq> Some j"
    using Cons.prems(2) processIssue_index[OF Cons.prems(1), of e issue] by simp
  from Cons.IH[OF q this] u show ?case unfolding st by (rule untouched_trans[rotated])
qed

section \<open>What a pass leaves behind in the service\<close>

lemma follows_refl: "follows s s"
  by (simp add: follows_def)

lemma follows_trans: "follows s t \<Longrightarrow> follows t u \<Longrightarrow> follows s u"
  by (auto simp: follows_def)

lemma now_follows: "now e s = (t, s1) \<Longrightarrow> follows s s1 \<and> t = nowISO e (clock s)"
  by (auto simp: now_def follows_def)

lemma apiRequest_follows: "apiRequest e m p b s = (r, s1) \<Longrightarrow> follows s s1"
  by (auto simp: apiRequest_def getSession_def follows_def Let_def
      split: session_reply.splits fetch_reply.splits if_splits sum.splits)

lemma update_follows: "follows s (snd (snd (updateFeatureFromIssue e f issue s)))"
  by (auto simp: updateFeatureFromIssue_def Let_def now_def follows_def
      split: prod.splits option.splits if_splits)

lemma issueToFeature_follows: "issueToFeature e issue s = (f, s1) \<Longrightarrow> follows s s1"
  by (auto simp: issueToFeature_def Let_def now_def follows_def split: prod.splits)

lemma ok_not_403: "ok r \<Longrightarrow> status_code r \<noteq> 403"
  by (simp add: ok_def)

text \<open>What the request of a push does, by the answers of the platform.\<close>

lemma apiRequest_patch:
  assumes "apiRequest e PATCH p (Some b) s = (res, s1)"
  shows "sessionCalls s1 = Suc (sessionCalls s) \<and> warnings s1 = warnings s \<and> clock s1 = clock s
     \<and> this_repo s1 = this_repo s
     \<and> (case authSession e (sessionCalls s) of
          Session sess \<Rightarrow>
            sent s1 = sent s @ [\<lparr>req_method = PATCH, req_path = p, req_body = Some b\<rparr>]
            \<and> ((\<exists>d. res = Inr d)
                 = accepted e (length (sent s)) \<lparr>req_method = PATCH, req_path = p, req_body = Some b\<rparr>)
        | NoSession \<Rightarrow> res = Inl AuthenticationRequired \<and> sent s1 = sent s
        | SessionRejects m \<Rightarrow> res = Inl (Thrown m) \<and> sent s1 = sent s)"
  using assms
  by (auto simp: apiRequest_def getSession_def accepted_def Let_def dest: ok_not_403
      split: session_reply.splits fetch_reply.splits if_splits sum.splits)

lemma patchRequest_eq:
  "this_repo s = Some r \<Longrightarrow>
     \<lparr>req_method = PATCH, req_path = issuePath s (issueNumber g), req_body = Some (pushPayload f)\<rparr>
       = patchRequest r f g"
  by (simp add: patchRequest_def issuePath_def repoText_def pushPayload_def pushState_def)

lemma push_detail:
  assumes g: "github f = Some g" and r: "this_repo s = Some r" and t: "truthy (this_repo s)"
    and p: "pushFeatureToGitHub e f s = (w, f1, s1)"
  shows "pushedRecord e f g r s w f1 s1 \<and> follows s s1"
  using g
proof (cases rule: push_cases[where e = e and s = s])
  case not_sent
  with t show ?thesis by simp
next
  case (ok d s' t' s2)
  note a = apiRequest_patch[OF ok(2)] and f = apiRequest_follows[OF ok(2)]
    and n = now_follows[OF ok(3)]
  from ok(4) p have w: "w" and f1: "f1 = f\<lparr>github := Some (g\<lparr>syncedAt := t'\<rparr>)\<rparr>" and s1: "s1 = s2"
    by simp_all
  from ok(3) have s2: "sessionCalls s2 = sessionCalls s'" "sent s2 = sent s'" "warnings s2 = warnings s'"
    by (auto simp: now_def)
  have t': "t' = nowISO e (clock s')" using n by simp
  have "pushedRecord e f g r s w f1 s1"
  proof (cases "authSession e (sessionCalls s)")
    case (Session sess)
    with a have "sent s' = sent s @ [patchRequest r f g]"
      and "accepted e (length (sent s)) (patchRequest r f g)"
      and "sessionCalls s' = Suc (sessionCalls s)" and "warnings s' = warnings s"
      unfolding patchRequest_eq[OF r] by auto
    with Session w f1 s1 s2 t' show ?thesis
      unfolding pushedRecord_def by (simp add: exI[of _ "clock s'"])
  next
    case NoSession
    with a show ?thesis by simp
  next
    case (SessionRejects m)
    with a show ?thesis by simp
  qed
  moreover have "follows s s1" using f n s1 by (blast intro: follows_trans)
  ultimately show ?thesis by simp
next
  case (failed err s')
  note a = apiRequest_patch[OF failed(2)] and f = apiRequest_follows[OF failed(2)]
  from failed(3) p have w: "\<not> w" and f1: "f1 = f"
    and s1: "s1 = showWarningMessage (failedPushWarning g err) s'"
    by (simp_all add: failedPushWarning_def)
  have s2: "sessionCalls s1 = sessionCalls s'" "sent s1 = sent s'"
    "warnings s1 = warnings s' @ [failedPushWarning g err]" "this_repo s1 = this_repo s'"
    by (simp_all add: s1 showWarningMessage_def)
  have "pushedRecord e f g r s w f1 s1"
  proof (cases "authSession e (sessionCalls s)")
    case (Session sess)
    with a have "sent s' = sent s @ [patchRequest r f g]"
      and "\<not> accepted e (length (sent s)) (patchRequest r f g)"
      and "sessionCalls s' = Suc (sessionCalls s)" and "warnings s' = warnings s"
      unfolding patchRequest_eq[OF r] by auto
    with Session w f1 s2 show ?thesis
      unfolding pushedRecord_def by (simp add: exI[of _ err])
  next
    case NoSession
    with a have "err = AuthenticationRequired" "sent s' = sent s"
      and "sessionCalls s' = Suc (sessionCalls s)" and "warnings s' = warnings s" by auto
    with NoSession w f1 s2 show ?thesis unfolding pushedRecord_def by simp
  next
    case (SessionRejects m)
    with a have "err = Thrown m" "sent s' = sent s"
      and "sessionCalls s' = Suc (sessionCalls s)" and "warnings s' = warnings s" by auto
    with SessionRejects w f1 s2 show ?thesis unfolding pushedRecord_def by simp
  qed
  moreover have "follows s s1"
  proof -
    from f have "follows s s'" .
    moreover have "follows s' s1" using s2 by (simp add: follows_def)
    ultimately show ?thesis by (rule follows_trans)
  qed
  ultimately show ?thesis by simp
qed


text \<open>What \<open>_updateFeatureFromIssue\<close> makes of a linked record.\<close>

lemma resolveOpen_values: "resolveOpenIssueStatus s issue = ''todo'' \<or> resolveOpenIssueStatus s issue = ''backlog''"
  by (simp add: resolveOpenIssueStatus_def)

lemma pulled_record:
  assumes "github f = Some g"
  shows "pulledRecord e f issue (pulled e f issue s)"
proof -
  have c: "content (pulled e f issue s) = ''# '' @ title issue
         @ (case body issue of None \<Rightarrow> [] | Some b \<Rightarrow> if b = [] then [] else [CHR 0x0A, CHR 0x0A] @ b)"
    by (simp add: pulled_content issueContent_def Let_def split: option.splits)
  have l: "labels (pulled e f issue s) = map fst (issue_labels issue)"
    and a: "assignee (pulled e f issue s)
        = (if truthy (issue_assignee issue) then issue_assignee issue else assignee f)"
    by (auto simp: pulled_def updateFeatureFromIssue_def Let_def now_def
        split: prod.splits option.splits)
  have st: "if state issue = ''closed''
         then status (pulled e f issue s) = ''done''
              \<and> (if status f = ''done'' then completedAt (pulled e f issue s) = completedAt f
                 else \<exists>k. completedAt (pulled e f issue s) = Some (nowISO e k))
         else if status f = ''done''
         then (status (pulled e f issue s) = ''todo'' \<or> status (pulled e f issue s) = ''backlog'')
              \<and> completedAt (pulled e f issue s) = None
         else status (pulled e f issue s) = status f
              \<and> completedAt (pulled e f issue s) = completedAt f"
    using resolveOpen_values[of s issue]
    by (auto simp: pulled_def updateFeatureFromIssue_def Let_def now_def resolvedStatus_def
        split: prod.splits option.splits)
  have ck: "\<exists>k. modified (pulled e f issue s) = nowISO e k
       \<and> map_option syncedAt (github (pulled e f issue s)) = Some (nowISO e (Suc k))"
    using assms
    by (auto simp: pulled_def updateFeatureFromIssue_def Let_def now_def
        split: prod.splits option.splits)
  have fr: "id' (pulled e f issue s) = id' f
      \<and> Feature.created (pulled e f issue s) = Feature.created f
      \<and> priority (pulled e f issue s) = priority f
      \<and> dueDate (pulled e f issue s) = dueDate f \<and> order (pulled e f issue s) = order f
      \<and> filePath (pulled e f issue s) = filePath f
      \<and> map_option issueNumber (github (pulled e f issue s)) = map_option issueNumber (github f)
      \<and> map_option repo (github (pulled e f issue s)) = map_option repo (github f)
      \<and> map_option htmlUrl (github (pulled e f issue s)) = map_option htmlUrl (github f)"
    by (auto simp: pulled_def updateFeatureFromIssue_def Let_def now_def
        split: prod.splits option.splits)
  show ?thesis unfolding pulledRecord_def using c l a st ck fr by blast
qed

lemma push_follows:
  assumes "pushFeatureToGitHub e f s = (w, f1, s1)"
  shows "follows s s1"
proof (cases "github f")
  case None
  with assms show ?thesis by (simp add: pushFeatureToGitHub_def follows_refl)
next
  case (Some g)
  show ?thesis
  proof (cases "truthy (this_repo s)")
    case False
    with assms Some show ?thesis by (simp add: pushFeatureToGitHub_def follows_refl)
  next
    case True
    then obtain r where "this_repo s = Some r" by (cases "this_repo s") (simp_all add: truthy_def)
    from push_detail[OF Some this True assms] show ?thesis by simp
  qed
qed

lemma processIssue_follows:
  assumes "linked p"
  shows "follows (svc p) (svc (snd (processIssue e issue p)))"
  using assms
proof (cases rule: processIssue_cases[where e = e and issue = issue])
  case (create f s1)
  with issueToFeature_follows[OF create(2)] show ?thesis by simp
next
  case (pull i)
  with assms obtain g where "github (feats p ! i) = Some g" by (auto simp: linked_def)
  from applyPull_linked[OF this, of e issue] pull update_follows[of "svc p" e "feats p ! i" issue]
  show ?thesis by simp
next
  case (push i)
  show ?thesis
  proof (rule applyPush_shape[of e p i])
    fix w f1 s1
    assume u: "pushFeatureToGitHub e (feats p ! i) (svc p) = (w, f1, s1)"
      and v: "snd (applyPush e i p) =
           p\<lparr>svc := s1, feats := (feats p)[i := f1],
             result := (if w then (result p)\<lparr>pushed := pushed (result p) @ [i]\<rparr> else result p)\<rparr>"
    from push_follows[OF u] push v show ?thesis by simp
  qed
next
  case (skip i)
  then show ?thesis by (simp add: follows_refl)
qed

lemma processIssues_follows:
  assumes "linked p"
  shows "follows (svc p) (svc (snd (processIssues e issues p)))"
  using assms
proof (induction issues arbitrary: p)
  case Nil
  then show ?case by (simp add: follows_refl)
next
  case (Cons issue rest)
  let ?q = "snd (processIssue e issue p)"
  have q: "linked ?q" using Cons.prems by (rule processIssue_linked)
  have st: "processIssues e (issue # rest) p = processIssues e rest ?q"
    using Cons.prems by (rule processIssues_step)
  from processIssue_follows[OF Cons.prems, of e issue] Cons.IH[OF q]
  show ?case unfolding st by (rule follows_trans)
qed

lemma fetchIssues_follows:
  assumes "fetchIssues e s = (r, s')"
  shows "follows s s'"
proof (cases e s rule: fetchIssues_cases)
  case (fail1 err s1)
  with assms apiRequest_follows[OF fail1(1)] show ?thesis by simp
next
  case (one d st s1)
  with assms apiRequest_follows[OF one(1)] show ?thesis by simp
next
  case (fail2 d st s1 err s2)
  with assms follows_trans[OF apiRequest_follows[OF fail2(1)] apiRequest_follows[OF fail2(3)]]
  show ?thesis by simp
next
  case (two d st s1 d2 st2 s2)
  with assms follows_trans[OF apiRequest_follows[OF two(1)] apiRequest_follows[OF two(3)]]
  show ?thesis by simp
qed

lemma started_trace:
  "sessionCalls (started e s) = sessionCalls s \<and> sent (started e s) = sent s
   \<and> warnings (started e s) = warnings s"
  by (simp add: started_def prepared_def initialize_def onStatusChange_def Let_def)

text \<open>From what one push did, and where it lies in the pass, to the outcome of the pass.\<close>

lemma pushApplied_intro:
  assumes u: "i \<notin> set (updated (fst out))"
    and g: "github (features ! i) = Some g" and r: "this_repo (snd (snd out)) = Some r"
    and p: "pushedRecord e (features ! i) g r s1 (i \<in> set (pushed (fst out))) (fst (snd out) ! i) s2"
    and lo: "sessionCalls s \<le> sessionCalls s1" "sent s1 = sent s @ rs" "warnings s1 = warnings s @ ws"
    and hi: "sessionCalls s2 \<le> sessionCalls (snd (snd out))" "sent (snd (snd out)) = sent s2 @ rs'"
      "warnings (snd (snd out)) = warnings s2 @ ws'"
  shows "pushApplied e features i s out"
proof -
  let ?sN = "snd (snd out)" and ?f = "features ! i" and ?a = "sessionCalls s1"
  from p have sc: "sessionCalls s2 = Suc ?a" by (simp add: pushedRecord_def)
  with hi(1) have a: "sessionCalls s \<le> ?a" "?a < sessionCalls ?sN" using lo(1) by simp_all
  have warned: "x \<in> set (drop (length (warnings s)) (warnings ?sN))"
    if "warnings s2 = warnings s1 @ [x]" for x
    using that lo(3) hi(3) by simp
  have body: "case authSession e ?a of
      Session sess \<Rightarrow>
        (\<exists>b. length (sent s) \<le> b \<and> b < length (sent ?sN)
           \<and> sent ?sN ! b = patchRequest r ?f g
           \<and> (if accepted e b (patchRequest r ?f g)
              then i \<in> set (pushed (fst out))
                   \<and> (\<exists>k. fst (snd out) ! i = ?f\<lparr>github := Some (g\<lparr>syncedAt := nowISO e k\<rparr>)\<rparr>)
              else i \<notin> set (pushed (fst out)) \<and> fst (snd out) ! i = ?f
                   \<and> (\<exists>err. failedPushWarning g err \<in> set (drop (length (warnings s)) (warnings ?sN)))))
    | NoSession \<Rightarrow>
        i \<notin> set (pushed (fst out)) \<and> fst (snd out) ! i = ?f
        \<and> failedPushWarning g AuthenticationRequired \<in> set (drop (length (warnings s)) (warnings ?sN))
    | SessionRejects m \<Rightarrow>
        i \<notin> set (pushed (fst out)) \<and> fst (snd out) ! i = ?f
        \<and> failedPushWarning g (Thrown m) \<in> set (drop (length (warnings s)) (warnings ?sN))"
  proof (cases "authSession e ?a")
    case (Session sess)
    let ?b = "length (sent s1)"
    from p Session have sent2: "sent s2 = sent s1 @ [patchRequest r ?f g]"
      and w: "(i \<in> set (pushed (fst out))) = accepted e ?b (patchRequest r ?f g)"
      and yes: "i \<in> set (pushed (fst out)) \<Longrightarrow>
          \<exists>k. fst (snd out) ! i = ?f\<lparr>github := Some (g\<lparr>syncedAt := nowISO e k\<rparr>)\<rparr>"
      and no: "i \<notin> set (pushed (fst out)) \<Longrightarrow>
          fst (snd out) ! i = ?f \<and> (\<exists>err. warnings s2 = warnings s1 @ [failedPushWarning g err])"
      by (simp_all add: pushedRecord_def)
    have b1: "length (sent s) \<le> ?b" using lo(2) by simp
    have b2: "?b < length (sent ?sN)" using hi(2) sent2 by simp
    have b3: "sent ?sN ! ?b = patchRequest r ?f g" using hi(2) sent2 by (simp add: nth_append)
    have b4: "if accepted e ?b (patchRequest r ?f g)
              then i \<in> set (pushed (fst out))
                   \<and> (\<exists>k. fst (snd out) ! i = ?f\<lparr>github := Some (g\<lparr>syncedAt := nowISO e k\<rparr>)\<rparr>)
              else i \<notin> set (pushed (fst out)) \<and> fst (snd out) ! i = ?f
                   \<and> (\<exists>err. failedPushWarning g err \<in> set (drop (length (warnings s)) (warnings ?sN)))"
    proof (cases "i \<in> set (pushed (fst out))")
      case True
      with w yes show ?thesis by simp
    next
      case False
      from no[OF False] obtain err where "fst (snd out) ! i = ?f"
        and "warnings s2 = warnings s1 @ [failedPushWarning g err]" by blast
      with warned[of "failedPushWarning g err"] False w show ?thesis by auto
    qed
    from b1 b2 b3 b4 Session show ?thesis by (simp add: exI[of _ ?b])
  next
    case NoSession
    with p have "i \<notin> set (pushed (fst out))" "fst (snd out) ! i = ?f"
      "warnings s2 = warnings s1 @ [failedPushWarning g AuthenticationRequired]"
      by (simp_all add: pushedRecord_def)
    with warned NoSession show ?thesis by simp
  next
    case (SessionRejects m)
    with p have "i \<notin> set (pushed (fst out))" "fst (snd out) ! i = ?f"
      "warnings s2 = warnings s1 @ [failedPushWarning g (Thrown m)]"
      by (simp_all add: pushedRecord_def)
    with warned SessionRejects show ?thesis by simp
  qed
  show ?thesis unfolding pushApplied_def
    using u g r a body by (intro conjI exI[of _ g] exI[of _ r] exI[of _ ?a]) simp_all
qed

section \<open>The whole pass\<close>

lemma indexFeatures_entry:
  "indexFeatures r fs k m n = Some i \<Longrightarrow>
     m n = Some i
     \<or> (k \<le> i \<and> i < k + length fs
         \<and> map_option issueNumber (github (fs ! (i - k))) = Some n
         \<and> map_option repo (github (fs ! (i - k))) = r)"
proof (induction fs arbitrary: k m)
  case Nil
  then show ?case by simp
next
  case (Cons f rest)
  let ?m = "(case github f of None \<Rightarrow> m
             | Some g \<Rightarrow> if Some (repo g) = r then m(issueNumber g \<mapsto> k) else m)"
  from Cons.prems have "indexFeatures r rest (Suc k) ?m n = Some i" by simp
  from Cons.IH[OF this] show ?case
  proof
    assume a: "?m n = Some i"
    show ?thesis
    proof (cases "m n = Some i")
      case True
      then show ?thesis by simp
    next
      case False
      with a obtain g where "github f = Some g" "Some (repo g) = r" "issueNumber g = n" "i = k"
        by (auto split: option.splits if_splits)
      then show ?thesis by auto
    qed
  next
    assume a: "Suc k \<le> i \<and> i < Suc k + length rest
         \<and> map_option issueNumber (github (rest ! (i - Suc k))) = Some n
         \<and> map_option repo (github (rest ! (i - Suc k))) = r"
    then have "i - k = Suc (i - Suc k)" by linarith
    then have "(f # rest) ! (i - k) = rest ! (i - Suc k)" by simp
    with a show ?thesis by simp
  qed
qed

lemma initialPass_entry:
  assumes "syncedByNumber (initialPass s features) n = Some i"
  shows "i < length features \<and> map_option issueNumber (github (features ! i)) = Some n
     \<and> map_option repo (github (features ! i)) = this_repo s"
  using indexFeatures_entry[of "this_repo s" features 0 Map.empty n i] assms
  by (simp add: initialPass_def)

lemma initialPass_linked: "linked (initialPass s features)"
  unfolding linked_def using initialPass_entry[of s features]
  by (auto simp: initialPass_def)

lemma syncPass_unfold:
  "syncPass e features s =
     (case fetchIssues e s of
        (Inl err, s1) \<Rightarrow> (Some err, (initialPass s1 features)\<lparr>syncedByNumber := Map.empty\<rparr>)
      | (Inr issues, s1) \<Rightarrow> processIssues e issues (initialPass s1 features))"
  by (simp add: syncPass_def initialPass_def split: prod.splits sum.splits)

lemma syncPass_failed:
  assumes "fetchIssues e s = (Inl err, s1)"
  shows "syncPass e features s = (Some err, (initialPass s1 features)\<lparr>syncedByNumber := Map.empty\<rparr>)"
  using assms by (simp add: syncPass_unfold)

lemma syncPass_fetched:
  assumes "fetchIssues e s = (Inr issues, s1)"
  shows "syncPass e features s = (None, snd (processIssues e issues (initialPass s1 features)))"
proof -
  have "fst (processIssues e issues (initialPass s1 features)) = None"
    using processIssues_summary[OF initialPass_linked] by blast
  then show ?thesis using assms
    by (cases "processIssues e issues (initialPass s1 features)") (simp add: syncPass_unfold)
qed

text \<open>The pass is interrupted only when the fetch throws.\<close>

lemma syncPass_interrupted:
  assumes "fst (syncPass e features s) = Some err"
  shows "fst (fetchIssues e s) = Inl err
     \<and> result (snd (syncPass e features s)) = emptyResult
     \<and> feats (snd (syncPass e features s)) = features"
proof -
  obtain r s1 where f: "fetchIssues e s = (r, s1)" by (cases "fetchIssues e s")
  show ?thesis
  proof (cases r)
    case (Inl x)
    with f assms syncPass_failed[of e s x s1 features] show ?thesis
      by (simp add: initialPass_def)
  next
    case (Inr issues)
    with f assms syncPass_fetched[of e s issues s1 features] show ?thesis by simp
  qed
qed

lemma sync_rejected:
  "this_syncing s \<Longrightarrow>
     sync e features s = (emptyResult\<lparr>errors := [''Sync already in progress'']\<rparr>, features, s)"
  by (simp add: sync_def)

lemma sync_unconfigured:
  "\<not> this_syncing s \<Longrightarrow> \<not> truthy (this_repo (prepared e s)) \<Longrightarrow>
     sync e features s =
       (emptyResult\<lparr>errors := [''No GitHub repository configured or detected'']\<rparr>, features,
        prepared e s)"
  by (simp add: sync_def prepared_def Let_def)

lemma sync_interrupted:
  assumes "\<not> this_syncing s" and "truthy (this_repo (prepared e s))"
    and "syncPass e features (started e s) = (Some err, p)"
  shows "sync e features s =
     ((result p)\<lparr>errors := errors (result p) @ [message err]\<rparr>, feats p,
      (onStatusChange Error (Some (message err)) (svc p))\<lparr>this_syncing := False\<rparr>)"
  using assms by (simp add: sync_def prepared_def started_def Let_def)

lemma sync_completed:
  assumes "\<not> this_syncing s" and "truthy (this_repo (prepared e s))"
    and "syncPass e features (started e s) = (None, p)"
  shows "sync e features s =
     (result p, feats p, (onStatusChange Success None (svc p))\<lparr>this_syncing := False\<rparr>)"
  using assms by (simp add: sync_def prepared_def started_def Let_def)

lemma prepared_syncing: "this_syncing (prepared e s) = this_syncing s"
  by (simp add: prepared_def initialize_def onStatusChange_def Let_def)

lemma started_fields:
  "this_syncing (started e s) \<and> this_repo (started e s) = this_repo (prepared e s)
   \<and> sent (started e s) = sent (prepared e s)"
  by (simp add: started_def onStatusChange_def)

lemma sync_cases [case_names rejected unconfigured interrupted completed]:
  obtains
    "this_syncing s"
      and "sync e features s = (emptyResult\<lparr>errors := [''Sync already in progress'']\<rparr>, features, s)"
  | "\<not> this_syncing s" and "\<not> truthy (this_repo (prepared e s))"
      and "sync e features s =
             (emptyResult\<lparr>errors := [''No GitHub repository configured or detected'']\<rparr>,
              features, prepared e s)"
  | err s1 where "\<not> this_syncing s" and "truthy (this_repo (prepared e s))"
      and "fetchIssues e (started e s) = (Inl err, s1)"
      and "sync e features s =
             (emptyResult\<lparr>errors := [message err]\<rparr>, features,
              (onStatusChange Error (Some (message err)) s1)\<lparr>this_syncing := False\<rparr>)"
  | issues s1 p where "\<not> this_syncing s" and "truthy (this_repo (prepared e s))"
      and "fetchIssues e (started e s) = (Inr issues, s1)"
      and "p = snd (processIssues e issues (initialPass s1 features))"
      and "sync e features s =
             (result p, feats p, (onStatusChange Success None (svc p))\<lparr>this_syncing := False\<rparr>)"
proof (cases "this_syncing s")
  case True
  then show ?thesis using that(1) sync_rejected by blast
next
  case ns: False
  show ?thesis
  proof (cases "truthy (this_repo (prepared e s))")
    case False
    then show ?thesis using ns that(2) sync_unconfigured by blast
  next
    case True
    obtain r s1 where f: "fetchIssues e (started e s) = (r, s1)"
      by (cases "fetchIssues e (started e s)")
    show ?thesis
    proof (cases r)
      case (Inl err)
      from sync_interrupted[OF ns True syncPass_failed, of err s1 features] f Inl
      have "sync e features s =
             (emptyResult\<lparr>errors := [message err]\<rparr>, features,
              (onStatusChange Error (Some (message err)) s1)\<lparr>this_syncing := False\<rparr>)"
        by (simp add: initialPass_def emptyResult_def)
      with ns True f Inl show ?thesis using that(3) by blast
    next
      case (Inr issues)
      from sync_completed[OF ns True syncPass_fetched, of issues s1 features] f Inr
      have "sync e features s =
             (result (snd (processIssues e issues (initialPass s1 features))),
              feats (snd (processIssues e issues (initialPass s1 features))),
              (onStatusChange Success None (svc (snd (processIssues e issues (initialPass s1 features)))))
                \<lparr>this_syncing := False\<rparr>)"
        by simp
      with ns True f Inr show ?thesis using that(4) by blast
    qed
  qed
qed

section \<open>A record and the issue it is paired with\<close>

lemma chosen_exclusive:
  "\<not> (pullChosen e f issue \<and> pushChosen e f issue)"
  "pullChosen e f issue \<Longrightarrow> js_gt (issueUpdated e issue) (lastSynced e f)"
  "pushChosen e f issue \<Longrightarrow> js_gt (localModified e f) (lastSynced e f)"
  by (auto simp: pullChosen_def pushChosen_def)

text \<open>
  The object the lookup holds under the number of \<open>issue\<close>, when \<open>issue\<close> is the
  first fetched issue with that number: nothing before or after that iteration
  touches it, and that iteration pulls, pushes or skips it.
\<close>

lemma paired_record:
  fixes e :: env and before after :: "GitHubIssue list"
  assumes lk: "linked p0" and ent: "syncedByNumber p0 (number issue) = Some i"
    and fresh: "number issue \<notin> number ` set before"
    and repo: "truthy (this_repo (svc p0))"
  defines "p3 \<equiv> snd (processIssues e (before @ issue # after) p0)"
  shows "(pullChosen e (feats p0 ! i) issue
          \<and> i \<in> set (updated (result p3))
          \<and> (i \<in> set (pushed (result p3)) \<longleftrightarrow> i \<in> set (pushed (result p0)))
          \<and> (\<exists>s1. feats p3 ! i = pulled e (feats p0 ! i) issue s1))
       \<or> (pushChosen e (feats p0 ! i) issue
          \<and> (i \<in> set (updated (result p3)) \<longleftrightarrow> i \<in> set (updated (result p0)))
          \<and> (\<exists>w s1 s2. follows (svc p0) s1 \<and> follows s2 (svc p3)
                 \<and> pushFeatureToGitHub e (feats p0 ! i) s1 = (w, feats p3 ! i, s2)
                 \<and> (i \<in> set (pushed (result p3)) \<longleftrightarrow> w \<or> i \<in> set (pushed (result p0)))))
       \<or> (\<not> js_gt (issueUpdated e issue) (lastSynced e (feats p0 ! i))
          \<and> \<not> js_gt (localModified e (feats p0 ! i)) (lastSynced e (feats p0 ! i))
          \<and> untouched i p0 p3)"
proof -
  define p1 where "p1 = snd (processIssues e before p0)"
  define p2 where "p2 = snd (processIssue e issue p1)"
  note s1 = processIssues_summary[OF lk, of e before, folded p1_def]
  have l1: "linked p1" using s1 by blast
  have ent1: "syncedByNumber p1 (number issue) = Some i" using s1 fresh ent by simp
  have repo1: "truthy (this_repo (svc p1))" using s1 repo by (simp add: sameLinks_def)
  have l2: "linked p2" unfolding p2_def using l1 by (rule processIssue_linked)
  have map2: "syncedByNumber p2 = (syncedByNumber p1)(number issue := None)"
    unfolding p2_def using l1 by (rule processIssue_index)
  have run: "p3 = snd (processIssues e after p2)"
  proof -
    have "processIssues e (before @ issue # after) p0 = processIssues e (issue # after) p1"
      using s1 by (cases "processIssues e before p0") (simp add: processIssues_append p1_def)
    also have "\<dots> = processIssues e after p2"
      unfolding p2_def using l1 by (rule processIssues_step)
    finally show ?thesis by (simp add: p3_def)
  qed
  have num0: "map_option issueNumber (github (feats p0 ! i)) = Some (number issue)"
    using lk ent by (simp add: linked_def)
  have num1: "map_option issueNumber (github (feats p1 ! i)) = Some (number issue)"
    and len1: "i < length (feats p1)"
    using l1 ent1 by (simp_all add: linked_def)
  have u01: "untouched i p0 p1"
    unfolding p1_def using lk
  proof (rule processIssues_untouched)
    show "\<forall>x \<in> set before. syncedByNumber p0 (number x) \<noteq> Some i"
    proof
      fix x assume x: "x \<in> set before"
      show "syncedByNumber p0 (number x) \<noteq> Some i"
      proof
        assume "syncedByNumber p0 (number x) = Some i"
        with lk have "map_option issueNumber (github (feats p0 ! i)) = Some (number x)"
          by (simp add: linked_def)
        with num0 have "number x = number issue" by simp
        with x have "number issue \<in> number ` set before" by (metis imageI)
        with fresh show False by simp
      qed
    qed
  qed
  have u23: "untouched i p2 p3"
    unfolding run using l2
  proof (rule processIssues_untouched)
    show "\<forall>x \<in> set after. syncedByNumber p2 (number x) \<noteq> Some i"
    proof
      fix x assume "x \<in> set after"
      show "syncedByNumber p2 (number x) \<noteq> Some i"
      proof
        assume a: "syncedByNumber p2 (number x) = Some i"
        then have ne: "number x \<noteq> number issue" and "syncedByNumber p1 (number x) = Some i"
          unfolding map2 by (auto split: if_splits)
        with l1 have "map_option issueNumber (github (feats p1 ! i)) = Some (number x)"
          by (simp add: linked_def)
        with num1 ne show False by simp
      qed
    qed
  qed
  have f01: "feats p1 ! i = feats p0 ! i" using u01 by (simp add: untouched_def)
  obtain g where g: "github (feats p1 ! i) = Some g" using num1 by auto
  from l1 show ?thesis
  proof (cases rule: processIssue_cases[where e = e and issue = issue])
    case (create f s')
    with ent1 show ?thesis by simp
  next
    case (pull j)
    with ent1 have j: "j = i" by simp
    from pull(3) applyPull_linked[OF g, of e issue]
    have "feats p2 = (feats p1)[i := pulled e (feats p1 ! i) issue (svc p1)]"
      and "result p2 = (result p1)\<lparr>updated := updated (result p1) @ [i]\<rparr>"
      by (simp_all add: p2_def j)
    with len1 have "feats p2 ! i = pulled e (feats p0 ! i) issue (svc p1)"
      and "i \<in> set (updated (result p2))"
      and "pushed (result p2) = pushed (result p1)"
      by (simp_all add: f01)
    with u01 u23 pull(2) show ?thesis
      by (auto simp: untouched_def j f01)
  next
    case (push j)
    with ent1 have j: "j = i" by simp
    show ?thesis
    proof (rule applyPush_shape[of e p1 i])
      fix w f1 s'
      assume u: "pushFeatureToGitHub e (feats p1 ! i) (svc p1) = (w, f1, s')"
        and v: "snd (applyPush e i p1) =
           p1\<lparr>svc := s', feats := (feats p1)[i := f1],
              result := (if w then (result p1)\<lparr>pushed := pushed (result p1) @ [i]\<rparr> else result p1)\<rparr>"
      from push(3) v have "feats p2 = (feats p1)[i := f1]"
        and r2: "result p2 = (if w then (result p1)\<lparr>pushed := pushed (result p1) @ [i]\<rparr> else result p1)"
        by (simp_all add: p2_def j)
      with len1 have f2: "feats p2 ! i = f1" by simp
      from push(3) v have s2: "svc p2 = s'" by (simp add: p2_def j)
      have "pushFeatureToGitHub e (feats p0 ! i) (svc p1) = (w, feats p3 ! i, s')"
        using u u23 f2 f01 by (simp add: untouched_def)
      moreover have "follows (svc p0) (svc p1)"
        unfolding p1_def using lk by (rule processIssues_follows)
      moreover have "follows s' (svc p3)"
        unfolding run s2[symmetric] using l2 by (rule processIssues_follows)
      ultimately have "\<exists>w s1 s2. follows (svc p0) s1 \<and> follows s2 (svc p3)
                 \<and> pushFeatureToGitHub e (feats p0 ! i) s1 = (w, feats p3 ! i, s2)
                 \<and> (i \<in> set (pushed (result p3)) \<longleftrightarrow> w \<or> i \<in> set (pushed (result p0)))"
        using u01 u23 r2 by (intro exI[of _ w] exI[of _ "svc p1"] exI[of _ s']) (auto simp: untouched_def)
      moreover have "i \<in> set (updated (result p3)) \<longleftrightarrow> i \<in> set (updated (result p0))"
        using u01 u23 r2 by (auto simp: untouched_def)
      ultimately show ?thesis using push(2) by (simp add: j f01)
    qed
  next
    case (skip j)
    with ent1 have j: "j = i" by simp
    from skip(4) have "untouched i p1 p2" by (simp add: p2_def untouched_def)
    with u01 u23 have "untouched i p0 p3" by (blast intro: untouched_trans)
    with skip(2,3) show ?thesis by (simp add: j f01)
  qed
qed

section \<open>Properties of a pass\<close>

lemma truthy_Some: "truthy v \<Longrightarrow> \<exists>r. v = Some r"
  by (cases v) (simp_all add: truthy_def)

lemma pass_repo:
  assumes "fetchIssues e (started e s) = (r, s1)"
  shows "this_repo s1 = this_repo (prepared e s) \<and> this_syncing s1"
  using fetchIssues_fields[OF assms] started_fields[of e s] by simp

text \<open>
  C1. Let record \<open>i\<close> be the one the lookup holds under the number of \<open>issue\<close>, and
  \<open>issue\<close> the first fetched issue with that number. If neither the issue nor the
  record changed after the last sync (for instants, both are at most \<open>syncedAt\<close>),
  the record is the same after the pass and is in neither list. If only the issue
  changed, the record is pulled: it is listed as updated and not as pushed, and its
  content, labels, assignee and status are the issue's. If only the record changed,
  it is pushed: it is not listed as updated, the PATCH request with its title, body
  and state was sent during the pass if a session was granted, and it is listed as
  pushed, with a new \<open>syncedAt\<close>, exactly when the remote accepted the request. If
  both changed, it is pulled when the issue is at least as recent as the record, and
  pushed otherwise.
\<close>

theorem decision_table:
  assumes "\<not> this_syncing s" and "truthy (this_repo (prepared e s))"
    and "fst (fetchIssues e (started e s)) = Inr (before @ issue # after)"
    and "number issue \<notin> number ` set before"
    and "indexFeatures (this_repo (prepared e s)) features 0 Map.empty (number issue) = Some i"
  shows
    "(\<not> js_gt (issueUpdated e issue) (lastSynced e (features ! i))
        \<and> \<not> js_gt (localModified e (features ! i)) (lastSynced e (features ! i))
      \<longrightarrow> fst (snd (sync e features s)) ! i = features ! i
          \<and> i \<notin> set (updated (fst (sync e features s)))
          \<and> i \<notin> set (pushed (fst (sync e features s))))
     \<and> (js_gt (issueUpdated e issue) (lastSynced e (features ! i))
        \<and> \<not> js_gt (localModified e (features ! i)) (lastSynced e (features ! i))
      \<longrightarrow> pullApplied e features issue i (sync e features s))
     \<and> (\<not> js_gt (issueUpdated e issue) (lastSynced e (features ! i))
        \<and> js_gt (localModified e (features ! i)) (lastSynced e (features ! i))
      \<longrightarrow> pushApplied e features i s (sync e features s))
     \<and> (js_gt (issueUpdated e issue) (lastSynced e (features ! i))
        \<and> js_gt (localModified e (features ! i)) (lastSynced e (features ! i))
      \<longrightarrow> (js_ge (issueUpdated e issue) (localModified e (features ! i))
             \<longrightarrow> pullApplied e features issue i (sync e features s))
          \<and> (\<not> js_ge (issueUpdated e issue) (localModified e (features ! i))
             \<longrightarrow> pushApplied e features i s (sync e features s)))"
proof -
  obtain s1 where f: "fetchIssues e (started e s) = (Inr (before @ issue # after), s1)"
    using assms(3) by (cases "fetchIssues e (started e s)") simp
  define p0 where "p0 = initialPass s1 features"
  define p3 where "p3 = snd (processIssues e (before @ issue # after) p0)"
  define sN where "sN = (onStatusChange Success None (svc p3))\<lparr>this_syncing := False\<rparr>"
  have repo: "this_repo s1 = this_repo (prepared e s)" using pass_repo[OF f] by simp
  have out: "sync e features s = (result p3, feats p3, sN)"
    using sync_completed[OF assms(1,2) syncPass_fetched[OF f]] by (simp add: p3_def p0_def sN_def)
  have lk: "linked p0" unfolding p0_def by (rule initialPass_linked)
  have ent: "syncedByNumber p0 (number issue) = Some i"
    using assms(5) repo by (simp add: p0_def initialPass_def)
  have tr: "truthy (this_repo (svc p0))" using assms(2) repo by (simp add: p0_def initialPass_def)
  have f0: "feats p0 = features" and r0: "result p0 = emptyResult" and s0: "svc p0 = s1"
    by (simp_all add: p0_def initialPass_def)
  from lk ent f0 obtain g where g: "github (features ! i) = Some g"
    by (auto simp: linked_def)
  from tr obtain r where r: "this_repo (svc p0) = Some r" using truthy_Some by blast
  note pr = paired_record[OF lk ent assms(4) tr, of e after, folded p3_def, unfolded f0 r0]
  let ?R = "js_gt (issueUpdated e issue) (lastSynced e (features ! i))"
  let ?L = "js_gt (localModified e (features ! i)) (lastSynced e (features ! i))"
  let ?G = "js_ge (issueUpdated e issue) (localModified e (features ! i))"
  have pull: "pullApplied e features issue i (sync e features s)" if "?R" "?L \<longrightarrow> ?G"
  proof -
    from that have "\<not> pushChosen e (features ! i) issue" by (auto simp: pushChosen_def)
    with pr that obtain s' where "i \<in> set (updated (result p3))"
      and "i \<notin> set (pushed (result p3))"
      and "feats p3 ! i = pulled e (features ! i) issue s'"
      by (auto simp: emptyResult_def)
    with pulled_record[OF g, of e issue s'] show ?thesis
      by (simp add: pullApplied_def out)
  qed
  have push: "pushApplied e features i s (sync e features s)" if "?L" "?R \<longrightarrow> \<not> ?G"
  proof -
    from that have "\<not> pullChosen e (features ! i) issue" by (auto simp: pullChosen_def)
    with pr that obtain w sa sb where u: "i \<notin> set (updated (result p3))"
      and a: "follows (svc p0) sa" and b: "follows sb (svc p3)"
      and p: "pushFeatureToGitHub e (features ! i) sa = (w, feats p3 ! i, sb)"
      and w: "w = (i \<in> set (pushed (result p3)))"
      by (auto simp: emptyResult_def)
    from a r have ra: "this_repo sa = Some r" by (simp add: follows_def)
    then have ta: "truthy (this_repo sa)" using tr r by simp
    note d = push_detail[OF g ra ta p]
    from d have pd: "pushedRecord e (features ! i) g r sa (i \<in> set (pushed (result p3))) (feats p3 ! i) sb"
      and ab: "follows sa sb" by (simp_all add: w)
    have st: "follows (started e s) (svc p0)" unfolding s0 using f by (rule fetchIssues_follows)
    from follows_trans[OF st a] started_trace[of e s]
    obtain rs ws where lo: "sessionCalls s \<le> sessionCalls sa" "sent sa = sent s @ rs"
      "warnings sa = warnings s @ ws"
      by (auto simp: follows_def)
    from b obtain rs' ws' where hi: "sessionCalls sb \<le> sessionCalls sN" "sent sN = sent sb @ rs'"
      "warnings sN = warnings sb @ ws'"
      by (auto simp: follows_def sN_def onStatusChange_def)
    have rN: "this_repo sN = Some r" using ra ab b by (simp add: follows_def sN_def onStatusChange_def)
    show ?thesis
      by (rule pushApplied_intro[where g = g and r = r and ?s1.0 = sa and ?s2.0 = sb
            and rs = rs and ws = ws and rs' = rs' and ws' = ws'])
         (simp_all add: out u g rN pd lo hi)
  qed
  have skip: "fst (snd (sync e features s)) ! i = features ! i
          \<and> i \<notin> set (updated (fst (sync e features s)))
          \<and> i \<notin> set (pushed (fst (sync e features s)))" if "\<not> ?R" "\<not> ?L"
  proof -
    from that have "\<not> pullChosen e (features ! i) issue" "\<not> pushChosen e (features ! i) issue"
      by (auto simp: pullChosen_def pushChosen_def)
    with pr have "untouched i p0 p3" by blast
    then show ?thesis by (simp add: untouched_def out f0 r0 emptyResult_def)
  qed
  show ?thesis using pull push skip by blast
qed

text \<open>
  C8. A record without a link, or linked to another repository than the one the pass
  works on, is the same after \<open>sync\<close>, is in neither the updated nor the pushed list,
  and is none of the created records.
\<close>

theorem sync_frame:
  assumes "j < length features"
    and "github (features ! j) = None
         \<or> map_option repo (github (features ! j)) \<noteq> this_repo (prepared e s)"
  shows "fst (snd (sync e features s)) ! j = features ! j
     \<and> j \<notin> set (updated (fst (sync e features s)))
     \<and> j \<notin> set (pushed (fst (sync e features s)))
     \<and> features ! j \<notin> set (SyncResult.created (fst (sync e features s)))"
proof (cases e features s rule: sync_cases)
  case rejected
  then show ?thesis by (simp add: emptyResult_def)
next
  case unconfigured
  then show ?thesis by (simp add: emptyResult_def)
next
  case (interrupted err s1)
  then show ?thesis by (simp add: emptyResult_def)
next
  case (completed issues s1 p)
  define p0 where "p0 = initialPass s1 features"
  have repo: "this_repo s1 = this_repo (prepared e s)" using pass_repo[OF completed(3)] by simp
  from truthy_Some[OF completed(2)] obtain r where r: "this_repo (prepared e s) = Some r" by blast
  have other: "map_option repo (github (features ! j)) \<noteq> Some r"
    using assms(2) r by auto
  have lk: "linked p0" unfolding p0_def by (rule initialPass_linked)
  have none: "\<forall>issue \<in> set issues. syncedByNumber p0 (number issue) \<noteq> Some j"
  proof
    fix issue assume "issue \<in> set issues"
    show "syncedByNumber p0 (number issue) \<noteq> Some j"
    proof
      assume "syncedByNumber p0 (number issue) = Some j"
      from initialPass_entry[OF this[unfolded p0_def]] repo r other show False by simp
    qed
  qed
  have p: "p = snd (processIssues e issues p0)" using completed(4) by (simp add: p0_def)
  have "untouched j p0 p" unfolding p using lk none by (rule processIssues_untouched)
  then have a: "feats p ! j = features ! j \<and> j \<notin> set (updated (result p)) \<and> j \<notin> set (pushed (result p))"
    by (simp add: untouched_def p0_def initialPass_def emptyResult_def)
  have "createdHere p0 p" unfolding p using processIssues_summary[OF lk] by blast
  then have "\<forall>f \<in> set (SyncResult.created (result p)). map_option repo (github f) = Some r"
    using repo r by (simp add: createdHere_def p0_def initialPass_def emptyResult_def)
  with other have "features ! j \<notin> set (SyncResult.created (result p))" by blast
  with a completed(5) show ?thesis by simp
qed

text \<open>
  The flag, for a call that nothing interrupts. Called while the flag is set, \<open>sync\<close>
  returns at once the outcome whose only content is the error ``Sync already in
  progress'', with the service (so no request was sent) and every record as they
  were. Called while the flag is clear, it returns with the flag clear, whatever
  happened; and between the start of the pass and its end the flag is set.
\<close>

lemma sync_flag:
  "(this_syncing s \<longrightarrow>
      sync e features s =
        (\<lparr>created = [], updated = [], pushed = [], errors = [''Sync already in progress'']\<rparr>,
         features, s))
   \<and> (\<not> this_syncing s \<longrightarrow> \<not> this_syncing (snd (snd (sync e features s))))
   \<and> (\<not> this_syncing s \<and> truthy (this_repo (prepared e s)) \<longrightarrow>
        this_syncing (started e s)
        \<and> this_syncing (svc (snd (syncPass e features (started e s)))))"
proof (intro conjI impI)
  assume "this_syncing s"
  then show "sync e features s =
        (\<lparr>created = [], updated = [], pushed = [], errors = [''Sync already in progress'']\<rparr>,
         features, s)"
    by (simp add: sync_rejected emptyResult_def)
next
  assume ns: "\<not> this_syncing s"
  show "\<not> this_syncing (snd (snd (sync e features s)))"
  proof (cases e features s rule: sync_cases)
    case rejected
    with ns show ?thesis by simp
  next
    case unconfigured
    with ns show ?thesis by (simp add: prepared_syncing)
  next
    case (interrupted err s1)
    then show ?thesis by simp
  next
    case (completed issues s1 p)
    then show ?thesis by simp
  qed
next
  assume "\<not> this_syncing s \<and> truthy (this_repo (prepared e s))"
  show "this_syncing (started e s)" using started_fields[of e s] by simp
  obtain r s1 where f: "fetchIssues e (started e s) = (r, s1)"
    by (cases "fetchIssues e (started e s)")
  have s1: "this_syncing s1" using pass_repo[OF f] by simp
  show "this_syncing (svc (snd (syncPass e features (started e s))))"
  proof (cases r)
    case (Inl err)
    with f s1 show ?thesis by (simp add: syncPass_failed initialPass_def)
  next
    case (Inr issues)
    have "sameLinks (initialPass s1 features) (snd (processIssues e issues (initialPass s1 features)))"
      using processIssues_summary[OF initialPass_linked] by blast
    with f s1 Inr show ?thesis
      by (simp add: syncPass_fetched sameLinks_def initialPass_def)
  qed
qed

theorem decision_table_witness:
  "updated (fst (sync (exampleEnv board) boardFeatures exampleService)) = [0, 3]
   \<and> pushed (fst (sync (exampleEnv board) boardFeatures exampleService)) = [1, 4]
   \<and> fst (snd (sync (exampleEnv board) boardFeatures exampleService)) ! 2 = boardFeatures ! 2
   \<and> pullApplied (exampleEnv board) boardFeatures (boardIssues ! 0) 0
        (sync (exampleEnv board) boardFeatures exampleService)
   \<and> pushApplied (exampleEnv board) boardFeatures 1 exampleService
        (sync (exampleEnv board) boardFeatures exampleService)
   \<and> pullApplied (exampleEnv board) boardFeatures (boardIssues ! 3) 3
        (sync (exampleEnv board) boardFeatures exampleService)
   \<and> pushApplied (exampleEnv board) boardFeatures 4 exampleService
        (sync (exampleEnv board) boardFeatures exampleService)
   \<and> content (fst (snd (sync (exampleEnv board) boardFeatures exampleService)) ! 0)
       = ''# Seven'' @ [CHR 0x0A, CHR 0x0A] @ ''remote text''
   \<and> status (fst (snd (sync (exampleEnv board) boardFeatures exampleService)) ! 3) = ''done''
   \<and> sent (snd (snd (sync (exampleEnv board) boardFeatures exampleService))) ! 1
       = \<lparr>req_method = PATCH, req_path = ''/repos/o/r/issues/8'',
          req_body = Some \<lparr>patch_title = ''Eight'', patch_body = [], patch_state = ''open''\<rparr>\<rparr>
   \<and> sent (snd (snd (sync (exampleEnv board) boardFeatures exampleService))) ! 2
       = \<lparr>req_method = PATCH, req_path = ''/repos/o/r/issues/11'',
          req_body = Some \<lparr>patch_title = ''Eleven'', patch_body = [], patch_state = ''closed''\<rparr>\<rparr>"
proof -
  let ?e = "exampleEnv board"
  let ?out = "sync ?e boardFeatures exampleService"
  have a: "\<not> this_syncing exampleService" by code_simp
  have b: "truthy (this_repo (prepared ?e exampleService))" by code_simp
  have f: "fst (fetchIssues ?e (started ?e exampleService)) = Inr boardIssues" by code_simp
  have len: "length boardIssues = 6" by code_simp
  have sp: "fst (fetchIssues ?e (started ?e exampleService))
      = Inr (take k boardIssues @ boardIssues ! k # drop (Suc k) boardIssues)" if "k < 6" for k
    using f that len by (simp add: id_take_nth_drop[symmetric])
  have lists: "updated (fst ?out) = [0, 3]" "pushed (fst ?out) = [1, 4]" by code_simp+
  have n0: "number (boardIssues ! 0) \<notin> number ` set (take 0 boardIssues)" by code_simp
  have x0: "indexFeatures (this_repo (prepared ?e exampleService)) boardFeatures 0 Map.empty
              (number (boardIssues ! 0)) = Some 0" by code_simp
  have r0: "js_gt (issueUpdated ?e (boardIssues ! 0)) (lastSynced ?e (boardFeatures ! 0))
      \<and> \<not> js_gt (localModified ?e (boardFeatures ! 0)) (lastSynced ?e (boardFeatures ! 0))"
    by code_simp
  from decision_table [OF a b sp n0 x0] r0
  have c0: "pullApplied ?e boardFeatures (boardIssues ! 0) 0 ?out" by simp
  have n1: "number (boardIssues ! 1) \<notin> number ` set (take 1 boardIssues)" by code_simp
  have x1: "indexFeatures (this_repo (prepared ?e exampleService)) boardFeatures 0 Map.empty
              (number (boardIssues ! 1)) = Some 1" by code_simp
  have r1: "\<not> js_gt (issueUpdated ?e (boardIssues ! 1)) (lastSynced ?e (boardFeatures ! 1))
      \<and> js_gt (localModified ?e (boardFeatures ! 1)) (lastSynced ?e (boardFeatures ! 1))"
    by code_simp
  from decision_table [OF a b sp n1 x1] r1
  have c1: "pushApplied ?e boardFeatures 1 exampleService ?out" by simp
  have n2: "number (boardIssues ! 2) \<notin> number ` set (take 2 boardIssues)" by code_simp
  have x2: "indexFeatures (this_repo (prepared ?e exampleService)) boardFeatures 0 Map.empty
              (number (boardIssues ! 2)) = Some 2" by code_simp
  have r2: "\<not> js_gt (issueUpdated ?e (boardIssues ! 2)) (lastSynced ?e (boardFeatures ! 2))
      \<and> \<not> js_gt (localModified ?e (boardFeatures ! 2)) (lastSynced ?e (boardFeatures ! 2))"
    by code_simp
  from decision_table [OF a b sp n2 x2] r2
  have c2: "fst (snd ?out) ! 2 = boardFeatures ! 2" by simp
  have n3: "number (boardIssues ! 3) \<notin> number ` set (take 3 boardIssues)" by code_simp
  have x3: "indexFeatures (this_repo (prepared ?e exampleService)) boardFeatures 0 Map.empty
              (number (boardIssues ! 3)) = Some 3" by code_simp
  have r3: "js_gt (issueUpdated ?e (boardIssues ! 3)) (lastSynced ?e (boardFeatures ! 3))
      \<and> js_gt (localModified ?e (boardFeatures ! 3)) (lastSynced ?e (boardFeatures ! 3))
      \<and> js_ge (issueUpdated ?e (boardIssues ! 3)) (localModified ?e (boardFeatures ! 3))"
    by code_simp
  from decision_table [OF a b sp n3 x3] r3
  have c3: "pullApplied ?e boardFeatures (boardIssues ! 3) 3 ?out" by simp
  have n4: "number (boardIssues ! 4) \<notin> number ` set (take 4 boardIssues)" by code_simp
  have x4: "indexFeatures (this_repo (prepared ?e exampleService)) boardFeatures 0 Map.empty
              (number (boardIssues ! 4)) = Some 4" by code_simp
  have r4: "js_gt (issueUpdated ?e (boardIssues ! 4)) (lastSynced ?e (boardFeatures ! 4))
      \<and> js_gt (localModified ?e (boardFeatures ! 4)) (lastSynced ?e (boardFeatures ! 4))
      \<and> \<not> js_ge (issueUpdated ?e (boardIssues ! 4)) (localModified ?e (boardFeatures ! 4))"
    by code_simp
  from decision_table [OF a b sp n4 x4] r4
  have c4: "pushApplied ?e boardFeatures 4 exampleService ?out" by simp
  have seen: "content (fst (snd ?out) ! 0) = ''# Seven'' @ [CHR 0x0A, CHR 0x0A] @ ''remote text''"
    "status (fst (snd ?out) ! 3) = ''done''"
    "sent (snd (snd ?out)) ! 1
       = \<lparr>req_method = PATCH, req_path = ''/repos/o/r/issues/8'',
          req_body = Some \<lparr>patch_title = ''Eight'', patch_body = [], patch_state = ''open''\<rparr>\<rparr>"
    "sent (snd (snd ?out)) ! 2
       = \<lparr>req_method = PATCH, req_path = ''/repos/o/r/issues/11'',
          req_body = Some \<lparr>patch_title = ''Eleven'', patch_body = [], patch_state = ''closed''\<rparr>\<rparr>"
    by code_simp+
  from lists c0 c1 c2 c3 c4 seen show ?thesis by simp
qed

theorem sync_frame_witness:
  "github (boardFeatures ! 5) = None
   \<and> map_option repo (github (boardFeatures ! 6)) \<noteq> this_repo (prepared (exampleEnv board) exampleService)
   \<and> fst (snd (sync (exampleEnv board) boardFeatures exampleService)) ! 5 = boardFeatures ! 5
   \<and> fst (snd (sync (exampleEnv board) boardFeatures exampleService)) ! 6 = boardFeatures ! 6
   \<and> 6 \<notin> set (updated (fst (sync (exampleEnv board) boardFeatures exampleService)))
   \<and> length (SyncResult.created (fst (sync (exampleEnv board) boardFeatures exampleService))) = 1"
proof -
  let ?e = "exampleEnv board"
  have l5: "5 < length boardFeatures" and l6: "6 < length boardFeatures" by code_simp+
  have h5: "github (boardFeatures ! 5) = None" by code_simp
  have h6: "map_option repo (github (boardFeatures ! 6)) \<noteq> this_repo (prepared ?e exampleService)"
    by code_simp
  have c: "length (SyncResult.created (fst (sync ?e boardFeatures exampleService))) = 1"
    by code_simp
  from h5 have d5: "github (boardFeatures ! 5) = None
       \<or> map_option repo (github (boardFeatures ! 5)) \<noteq> this_repo (prepared ?e exampleService)"
    by simp
  from h6 have d6: "github (boardFeatures ! 6) = None
       \<or> map_option repo (github (boardFeatures ! 6)) \<noteq> this_repo (prepared ?e exampleService)"
    by simp
  from sync_frame [OF l5 d5] sync_frame [OF l6 d6] h5 h6 c show ?thesis by simp
qed

section \<open>Failures during a pass\<close>

text \<open>
  C4. A response with status 403 whose remaining-requests header is \<open>0\<close> makes
  \<open>_apiRequest\<close> throw the rate-limit error; any other response that is not a success
  makes it throw the generic error, and the two never have the same message. When a
  pass is interrupted by the rate-limit error, the outcome is what the pass had
  collected with that message added to its errors, and so are the records; the
  interruption comes from the fetch, before any record was applied, so the three
  lists are empty and the records are as they were.
\<close>

theorem rate_limit_interrupts:
  "(authSession e (sessionCalls s) = Session sess
      \<and> httpFetch e (length (sent s)) \<lparr>req_method = m, req_path = p, req_body = b\<rparr> = Response r
      \<and> status_code r = 403 \<and> rateLimitRemaining r = Some ''0''
    \<longrightarrow> fst (apiRequest e m p b s) = Inl (RateLimitExceeded (resetDate e r)))
   \<and> (authSession e (sessionCalls s) = Session sess
      \<and> httpFetch e (length (sent s)) \<lparr>req_method = m, req_path = p, req_body = b\<rparr> = Response r
      \<and> \<not> ok r \<and> \<not> (status_code r = 403 \<and> rateLimitRemaining r = Some ''0'')
      \<and> body_text r = Inr t
    \<longrightarrow> fst (apiRequest e m p b s) = Inl (RemoteAPIError m p (status_code r) t))
   \<and> message (RateLimitExceeded d) \<noteq> message (RemoteAPIError m' p' st' t')
   \<and> (\<not> this_syncing s0 \<and> truthy (this_repo (prepared e s0))
      \<and> fst (syncPass e features (started e s0)) = Some (RateLimitExceeded d)
    \<longrightarrow> fst (sync e features s0)
          = (result (snd (syncPass e features (started e s0))))
              \<lparr>errors := errors (result (snd (syncPass e features (started e s0))))
                          @ [message (RateLimitExceeded d)]\<rparr>
        \<and> fst (snd (sync e features s0)) = feats (snd (syncPass e features (started e s0)))
        \<and> fst (fetchIssues e (started e s0)) = Inl (RateLimitExceeded d)
        \<and> fst (sync e features s0)
          = \<lparr>created = [], updated = [], pushed = [], errors = [message (RateLimitExceeded d)]\<rparr>
        \<and> fst (snd (sync e features s0)) = features)"
proof (intro conjI impI)
  assume "authSession e (sessionCalls s) = Session sess
      \<and> httpFetch e (length (sent s)) \<lparr>req_method = m, req_path = p, req_body = b\<rparr> = Response r
      \<and> status_code r = 403 \<and> rateLimitRemaining r = Some ''0''"
  then show "fst (apiRequest e m p b s) = Inl (RateLimitExceeded (resetDate e r))"
    using apiRequest_rate_limit by blast
next
  assume "authSession e (sessionCalls s) = Session sess
      \<and> httpFetch e (length (sent s)) \<lparr>req_method = m, req_path = p, req_body = b\<rparr> = Response r
      \<and> \<not> ok r \<and> \<not> (status_code r = 403 \<and> rateLimitRemaining r = Some ''0'')
      \<and> body_text r = Inr t"
  then show "fst (apiRequest e m p b s) = Inl (RemoteAPIError m p (status_code r) t)"
    using apiRequest_failure by blast
next
  show "message (RateLimitExceeded d) \<noteq> message (RemoteAPIError m' p' st' t')"
    by (rule message_rate_limit_distinct)
next
  assume h: "\<not> this_syncing s0 \<and> truthy (this_repo (prepared e s0))
      \<and> fst (syncPass e features (started e s0)) = Some (RateLimitExceeded d)"
  let ?p = "snd (syncPass e features (started e s0))"
  from h have sp: "syncPass e features (started e s0) = (Some (RateLimitExceeded d), ?p)"
    by (metis prod.collapse)
  from h have i: "fst (fetchIssues e (started e s0)) = Inl (RateLimitExceeded d)
     \<and> result ?p = emptyResult \<and> feats ?p = features"
    using syncPass_interrupted by blast
  have out: "sync e features s0 =
     ((result ?p)\<lparr>errors := errors (result ?p) @ [message (RateLimitExceeded d)]\<rparr>, feats ?p,
      (onStatusChange Error (Some (message (RateLimitExceeded d))) (svc ?p))\<lparr>this_syncing := False\<rparr>)"
    using h sp by (intro sync_interrupted) simp_all
  show "fst (sync e features s0)
          = (result ?p)\<lparr>errors := errors (result ?p) @ [message (RateLimitExceeded d)]\<rparr>"
    by (simp add: out)
  show "fst (snd (sync e features s0)) = feats ?p" by (simp add: out)
  show "fst (fetchIssues e (started e s0)) = Inl (RateLimitExceeded d)" using i by simp
  show "fst (sync e features s0)
          = \<lparr>created = [], updated = [], pushed = [], errors = [message (RateLimitExceeded d)]\<rparr>"
    using i by (simp add: out emptyResult_def)
  show "fst (snd (sync e features s0)) = features" using i by (simp add: out)
qed

theorem rate_limit_interrupts_witness:
  "fst (apiRequest (exampleEnv secondPageLimited) GET (issuesPath exampleService 1) None
          (exampleService\<lparr>sent := [pageRequest exampleService 1]\<rparr>))
     = Inl (RateLimitExceeded ''1700000000'')
   \<and> fst (apiRequest (exampleEnv boardFailing) GET (issuesPath exampleService 1) None
          (exampleService\<lparr>sent := [pageRequest exampleService 1]\<rparr>))
     = Inl (RemoteAPIError GET (issuesPath exampleService 1) 500 ''boom'')
   \<and> fst (syncPass (exampleEnv secondPageLimited) boardFeatures
          (started (exampleEnv secondPageLimited) exampleService))
     = Some (RateLimitExceeded ''1700000000'')
   \<and> sync (exampleEnv secondPageLimited) boardFeatures exampleService
     = (\<lparr>created = [], updated = [], pushed = [],
         errors = [''GitHub API rate limit exceeded. Resets at 1700000000.'']\<rparr>,
        boardFeatures,
        snd (snd (sync (exampleEnv secondPageLimited) boardFeatures exampleService)))"
proof -
  let ?e = "exampleEnv secondPageLimited"
  let ?s = "exampleService\<lparr>sent := [pageRequest exampleService 1]\<rparr>"
  let ?rq = "\<lparr>req_method = GET, req_path = issuesPath exampleService 1, req_body = None\<rparr>"
  obtain r where r: "rateLimited = Response r" by (simp add: rateLimited_def)
  have r': "status_code r = 403 \<and> rateLimitRemaining r = Some ''0'' \<and> resetDate ?e r = ''1700000000''"
    using r by (auto simp: rateLimited_def resetDate_def exampleEnv_def)
  have a1: "authSession ?e (sessionCalls ?s) = Session \<lparr>accessToken = ''t'', label = ''me''\<rparr>"
    by (simp add: exampleEnv_def)
  have a2: "httpFetch ?e (length (sent ?s)) ?rq = Response r"
    using r by (simp add: exampleEnv_def secondPageLimited_def)
  obtain q where q: "serverError = Response q" by (simp add: serverError_def)
  have q': "\<not> ok q \<and> \<not> (status_code q = 403 \<and> rateLimitRemaining q = Some ''0'')
      \<and> body_text q = Inr ''boom'' \<and> status_code q = 500"
    using q by (auto simp: serverError_def ok_def)
  have b1: "authSession (exampleEnv boardFailing) (sessionCalls ?s)
      = Session \<lparr>accessToken = ''t'', label = ''me''\<rparr>"
    by (simp add: exampleEnv_def)
  have b2: "httpFetch (exampleEnv boardFailing) (length (sent ?s)) ?rq = Response q"
    using q by (simp add: exampleEnv_def boardFailing_def)
  have c1: "\<not> this_syncing exampleService" by code_simp
  have c2: "truthy (this_repo (prepared ?e exampleService))" by code_simp
  have c3: "fst (syncPass ?e boardFeatures (started ?e exampleService))
      = Some (RateLimitExceeded ''1700000000'')" by code_simp
  note t1 = rate_limit_interrupts [of ?e ?s _ GET "issuesPath exampleService 1" None r _
      "''1700000000''" _ _ _ _ exampleService boardFeatures]
  note t2 = rate_limit_interrupts [of "exampleEnv boardFailing" ?s _ GET "issuesPath exampleService 1"
      None q "''boom''"]
  from t1 a1 a2 r' have w1: "fst (apiRequest ?e GET (issuesPath exampleService 1) None ?s)
     = Inl (RateLimitExceeded ''1700000000'')" by simp
  from t2 b1 b2 q' have w2: "fst (apiRequest (exampleEnv boardFailing) GET (issuesPath exampleService 1) None ?s)
     = Inl (RemoteAPIError GET (issuesPath exampleService 1) 500 ''boom'')" by simp
  from t1 c1 c2 c3 have w3: "fst (sync ?e boardFeatures exampleService)
      = \<lparr>created = [], updated = [], pushed = [],
         errors = [message (RateLimitExceeded ''1700000000'')]\<rparr>
      \<and> fst (snd (sync ?e boardFeatures exampleService)) = boardFeatures" by blast
  have "sync ?e boardFeatures exampleService
     = (fst (sync ?e boardFeatures exampleService), fst (snd (sync ?e boardFeatures exampleService)),
        snd (snd (sync ?e boardFeatures exampleService)))" by simp
  with w1 w2 w3 c3 show ?thesis by simp
qed

text \<open>
  C3, as stated, fails: the failure of a push is shown as a warning and is not added
  to the errors of the outcome. Here the push of record 1 (and of record 4) gets a
  500 response.
\<close>

theorem failed_push_counterexample:
  "fst (apiRequest (exampleEnv boardFailing) PATCH ''/repos/o/r/issues/8''
          (Some (pushPayload (boardFeatures ! 1)))
          (exampleService\<lparr>sent := [pageRequest exampleService 1]\<rparr>))
     = Inl (RemoteAPIError PATCH ''/repos/o/r/issues/8'' 500 ''boom'')
   \<and> errors (fst (sync (exampleEnv boardFailing) boardFeatures exampleService)) = []
   \<and> pushed (fst (sync (exampleEnv boardFailing) boardFeatures exampleService)) = []
   \<and> warnings (snd (snd (sync (exampleEnv boardFailing) boardFeatures exampleService)))
     = [''Failed to update GitHub issue #8: GitHub API PATCH /repos/o/r/issues/8 failed (500): boom'',
        ''Failed to update GitHub issue #11: GitHub API PATCH /repos/o/r/issues/11 failed (500): boom'']"
  by code_simp

text \<open>
  C3, amended. When the push of a record fails, the record is left as it was (so its
  \<open>syncedAt\<close> is unchanged), the outcome is left as it was (the record is not listed
  as pushed and nothing is added to the errors), the failure is shown as a warning,
  and the loop goes on with the issues that follow. The errors of the outcome do not
  grow during the loop, so a pass whose fetch succeeded reports none.
\<close>

theorem failed_push:
  assumes "linked p" and "syncedByNumber p (number issue) = Some i"
    and "github (feats p ! i) = Some g"
    and "pushChosen e (feats p ! i) issue" and "truthy (this_repo (svc p))"
    and "apiRequest e PATCH (issuePath (svc p) (issueNumber g))
           (Some (pushPayload (feats p ! i))) (svc p) = (Inl err, s1)"
  shows "processIssues e (issue # rest) p =
           processIssues e rest
             (p\<lparr>svc := showWarningMessage (failedPushWarning g err) s1,
                syncedByNumber := (syncedByNumber p)(number issue := None)\<rparr>)
     \<and> errors (result (snd (processIssues e (issue # rest) p))) = errors (result p)
     \<and> (\<not> this_syncing s \<and> truthy (this_repo (prepared e s))
          \<and> fst (fetchIssues e (started e s)) = Inr issues
        \<longrightarrow> errors (fst (sync e features s)) = [])"
proof (intro conjI impI)
  have push: "pushFeatureToGitHub e (feats p ! i) (svc p) =
      (False, feats p ! i, showWarningMessage (failedPushWarning g err) s1)"
    using assms(3,5,6) by (simp add: pushFeatureToGitHub_def failedPushWarning_def)
  have ap: "snd (applyPush e i p) =
      p\<lparr>svc := showWarningMessage (failedPushWarning g err) s1\<rparr>"
    using push by (simp add: applyPush_def)
  from assms(1) have step: "processIssue e issue p =
      (None, p\<lparr>svc := showWarningMessage (failedPushWarning g err) s1,
                syncedByNumber := (syncedByNumber p)(number issue := None)\<rparr>)"
  proof (cases rule: processIssue_cases[where e = e and issue = issue])
    case (create f s')
    with assms(2) show ?thesis by simp
  next
    case (pull j)
    with assms(2,4) chosen_exclusive(1)[of e "feats p ! i" issue] show ?thesis by simp
  next
    case (push j)
    with assms(2) ap show ?thesis by simp
  next
    case (skip j)
    with assms(2,4) chosen_exclusive(3)[of e "feats p ! i" issue] show ?thesis by simp
  qed
  then show "processIssues e (issue # rest) p =
           processIssues e rest
             (p\<lparr>svc := showWarningMessage (failedPushWarning g err) s1,
                syncedByNumber := (syncedByNumber p)(number issue := None)\<rparr>)"
    by simp
  have "sameLinks p (snd (processIssues e (issue # rest) p))"
    using processIssues_summary[OF assms(1)] by blast
  then show "errors (result (snd (processIssues e (issue # rest) p))) = errors (result p)"
    by (simp add: sameLinks_def)
next
  assume h: "\<not> this_syncing s \<and> truthy (this_repo (prepared e s))
          \<and> fst (fetchIssues e (started e s)) = Inr issues"
  then obtain s2 where f: "fetchIssues e (started e s) = (Inr issues, s2)"
    by (cases "fetchIssues e (started e s)") simp
  let ?p = "snd (processIssues e issues (initialPass s2 features))"
  have "sameLinks (initialPass s2 features) ?p"
    using processIssues_summary[OF initialPass_linked] by blast
  then have "errors (result ?p) = []"
    by (simp add: sameLinks_def initialPass_def emptyResult_def)
  moreover have "sync e features s =
      (result ?p, feats ?p, (onStatusChange Success None (svc ?p))\<lparr>this_syncing := False\<rparr>)"
    using h syncPass_fetched[OF f] by (intro sync_completed) simp_all
  ultimately show "errors (fst (sync e features s)) = []" by simp
qed

theorem failed_push_witness:
  "linked failingPass
   \<and> syncedByNumber failingPass (number (boardIssues ! 1)) = Some 1
   \<and> github (feats failingPass ! 1) = Some eightLink
   \<and> pushChosen (exampleEnv boardFailing) (feats failingPass ! 1) (boardIssues ! 1)
   \<and> truthy (this_repo (svc failingPass))
   \<and> fst (apiRequest (exampleEnv boardFailing) PATCH (issuePath (svc failingPass) (issueNumber eightLink))
            (Some (pushPayload (feats failingPass ! 1))) (svc failingPass))
       = Inl (RemoteAPIError PATCH ''/repos/o/r/issues/8'' 500 ''boom'')
   \<and> errors (result (snd (processIssues (exampleEnv boardFailing)
                             (boardIssues ! 1 # drop 2 boardIssues) failingPass))) = []
   \<and> errors (fst (sync (exampleEnv boardFailing) boardFeatures exampleService)) = []"
proof -
  let ?e = "exampleEnv boardFailing"
  let ?err = "RemoteAPIError PATCH ''/repos/o/r/issues/8'' 500 ''boom''"
  let ?call = "apiRequest ?e PATCH (issuePath (svc failingPass) (issueNumber eightLink))
            (Some (pushPayload (feats failingPass ! 1))) (svc failingPass)"
  have h1: "linked failingPass" unfolding failingPass_def by (rule initialPass_linked)
  have h2: "syncedByNumber failingPass (number (boardIssues ! 1)) = Some 1" by code_simp
  have h3: "github (feats failingPass ! 1) = Some eightLink" by code_simp
  have h4: "pushChosen ?e (feats failingPass ! 1) (boardIssues ! 1)" by code_simp
  have h5: "truthy (this_repo (svc failingPass))" by code_simp
  have h6: "fst ?call = Inl ?err" by code_simp
  then have h6': "?call = (Inl ?err, snd ?call)" by (metis prod.collapse)
  have e0: "errors (result failingPass) = []" by code_simp
  have c1: "\<not> this_syncing exampleService" by code_simp
  have c2: "truthy (this_repo (prepared ?e exampleService))" by code_simp
  have c3: "fst (fetchIssues ?e (started ?e exampleService)) = Inr boardIssues" by code_simp
  note t = failed_push [OF h1 h2 h3 h4 h5 h6', of "drop 2 boardIssues" exampleService boardIssues
      boardFeatures]
  from t have "errors (result (snd (processIssues ?e (boardIssues ! 1 # drop 2 boardIssues)
      failingPass))) = errors (result failingPass)" by blast
  from this e0 have w1: "errors (result (snd (processIssues ?e (boardIssues ! 1 # drop 2 boardIssues)
      failingPass))) = []" by (rule trans)
  from t c1 c2 c3 have w2: "errors (fst (sync ?e boardFeatures exampleService)) = []" by blast
  from h1 h2 h3 h4 h5 h6 w1 w2 show ?thesis by blast
qed

section \<open>Numbers in file names\<close>

lemma digit_char_value: "d < 10 \<Longrightarrow> of_char (digit_char d) - 48 = d"
  by (simp add: digit_char_def)

lemma digits_value_string_of_nat: "digits_value (string_of_nat n) = n"
proof (induction n rule: string_of_nat.induct)
  case (1 n)
  show ?case
  proof (cases "n < 10")
    case True
    then show ?thesis
      by (subst string_of_nat.simps) (simp add: digits_value_def digit_char_value)
  next
    case False
    with 1 have ih: "digits_value (string_of_nat (n div 10)) = n div 10" by simp
    have "n mod 10 < 10" by simp
    then have d: "of_char (digit_char (n mod 10)) - 48 = n mod 10" by (rule digit_char_value)
    have "digits_value (string_of_nat n) = 10 * digits_value (string_of_nat (n div 10)) + n mod 10"
      using False d by (subst string_of_nat.simps) (simp add: digits_value_def)
    with ih show ?thesis by simp
  qed
qed

lemma string_of_nat_inj: "string_of_nat a = string_of_nat b \<Longrightarrow> a = b"
  by (metis digits_value_string_of_nat)

section \<open>Paths\<close>

lemma simpleName_ends: "simpleName y \<Longrightarrow> y \<noteq> [] \<and> last y \<noteq> sep \<and> hd y \<noteq> sep"
  unfolding simpleName_def by (metis last_in_set hd_in_set)

lemma splitOn_nonempty: "splitOn c s \<noteq> []"
  by (induction s) (auto split: list.splits)

lemma splitOn_no_sep: "c \<notin> set s \<Longrightarrow> splitOn c s = [s]"
  by (induction s) auto

lemma splitOn_append:
  "splitOn c (xs @ c # ys) = splitOn c xs @ splitOn c ys"
proof (induction xs)
  case Nil
  then show ?case by simp
next
  case (Cons x xs)
  then show ?case using splitOn_nonempty[of c xs]
    by (cases "splitOn c xs") (auto split: list.splits)
qed

lemma normalizeSegments_simple:
  "simpleName x \<Longrightarrow> normalizeSegments a (xs @ [x]) acc = normalizeSegments a xs acc @ [x]"
  by (induction a xs acc rule: normalizeSegments.induct) (auto simp: simpleName_def split: list.splits)

lemma joinWith_snoc:
  "joinWith c (xs @ [x]) = (if xs = [] then x else joinWith c xs @ c # x)"
  by (induction c xs rule: joinWith.induct) auto

text \<open>Joining a directory and a simple name puts the name after a prefix that is the directory's.\<close>

lemma normalize_dir_name:
  assumes "simpleName x" and "d \<noteq> []"
  shows "\<exists>pre. \<forall>y. simpleName y \<longrightarrow> normalize (d @ sep # y) = pre @ y"
proof -
  let ?N = "normalizeSegments (\<not> isAbsolute d) (splitOn sep d) []"
  let ?pre = "(if isAbsolute d then [sep] else []) @ (if ?N = [] then [] else joinWith sep ?N @ [sep])"
  have "normalize (d @ sep # y) = ?pre @ y" if y: "simpleName y" for y
  proof -
    have ne: "y \<noteq> []" and last: "last y \<noteq> sep"
      using simpleName_ends[OF y] by simp_all
    have abs: "isAbsolute (d @ sep # y) = isAbsolute d" using assms(2) by (simp add: isAbsolute_def)
    have sp: "splitOn sep (d @ sep # y) = splitOn sep d @ [y]"
      using y by (simp add: splitOn_append splitOn_no_sep simpleName_def)
    have q: "joinWith sep (normalizeSegments (\<not> isAbsolute d) (splitOn sep (d @ sep # y)) [])
        = (if ?N = [] then y else joinWith sep ?N @ sep # y)"
      unfolding sp normalizeSegments_simple[OF y] by (simp add: joinWith_snoc)
    show ?thesis
      unfolding normalize_def abs using ne last q by (simp add: Let_def)
  qed
  then show ?thesis by blast
qed

lemma join_dir_name:
  "\<exists>pre. \<forall>y. simpleName y \<longrightarrow> join [d, y] = pre @ y"
proof (cases "d = []")
  case True
  have "join [d, y] = y" if y: "simpleName y" for y
  proof -
    have "splitOn sep y = [y]" using y by (simp add: splitOn_no_sep simpleName_def)
    moreover have "normalizeSegments a [y] [] = [y]" for a
      using normalizeSegments_simple[OF y, of a "[]" "[]"] by simp
    ultimately show ?thesis using True simpleName_ends[OF y]
      by (simp add: join_def normalize_def Let_def isAbsolute_def)
  qed
  then show ?thesis by (intro exI[of _ "[]"]) simp
next
  case False
  obtain x where "simpleName x" by (intro that[of "''x''"]) (simp add: simpleName_def sep_def)
  from normalize_dir_name[OF this False] obtain pre where
    "\<forall>y. simpleName y \<longrightarrow> normalize (d @ sep # y) = pre @ y" by blast
  then have "\<forall>y. simpleName y \<longrightarrow> join [d, y] = pre @ y"
    using False by (auto simp: join_def simpleName_def)
  then show ?thesis by blast
qed

section \<open>Looking for a free name\<close>

lemma basename_no_sep: "sep \<notin> set (basename p)"
  unfolding basename_def by (auto dest: set_takeWhileD)

lemma basenameWithout_no_sep: "sep \<notin> set (basenameWithout p x)"
  using basename_no_sep[of p]
  by (auto simp: basenameWithout_def Let_def dest: in_set_takeD)

lemma extname_no_sep: "sep \<notin> set (extname p)"
  using basename_no_sep[of p]
  by (auto simp: extname_def Let_def sep_def dest!: set_takeWhileD)

lemma digit_char_not_sep: "d < 10 \<Longrightarrow> digit_char d \<noteq> sep"
proof
  assume d: "d < 10" and "digit_char d = sep"
  then have "(of_char (digit_char d) :: nat) = of_char sep" by simp
  with d show False by (simp add: digit_char_def sep_def)
qed

lemma string_of_nat_no_sep: "sep \<notin> set (string_of_nat n)"
proof (induction n rule: string_of_nat.induct)
  case (1 n)
  show ?case
  proof (cases "n < 10")
    case True
    then show ?thesis using digit_char_not_sep[of n] by (subst string_of_nat.simps) auto
  next
    case False
    with 1 have "sep \<notin> set (string_of_nat (n div 10))" by simp
    moreover have "digit_char (n mod 10) \<noteq> sep" by (rule digit_char_not_sep) simp
    ultimately show ?thesis using False by (subst string_of_nat.simps) auto
  qed
qed

lemma suffixed_simple:
  assumes "sep \<notin> set b" and "sep \<notin> set x"
  shows "simpleName (b @ ''-'' @ string_of_nat k @ x)"
proof -
  let ?n = "b @ ''-'' @ string_of_nat k @ x"
  have "CHR ''-'' \<in> set ?n" by simp
  then have "?n \<noteq> ''.''" "?n \<noteq> ''..''" "?n \<noteq> []" by (auto simp del: set_append)
  moreover have "sep \<notin> set ?n" using assms string_of_nat_no_sep[of k] by (simp add: sep_def)
  ultimately show ?thesis by (simp add: simpleName_def)
qed

lemma candidate_inj:
  assumes "sep \<notin> set b" and "sep \<notin> set x"
  shows "inj (candidate d b x)"
proof (rule injI)
  fix j k assume eq: "candidate d b x j = candidate d b x k"
  obtain pre where pre: "\<forall>y. simpleName y \<longrightarrow> join [d, y] = pre @ y"
    using join_dir_name by blast
  from pre suffixed_simple[OF assms] eq
  have "b @ ''-'' @ string_of_nat j @ x = b @ ''-'' @ string_of_nat k @ x"
    by (simp add: candidate_def)
  then show "j = k" by (simp add: string_of_nat_inj)
qed

lemma some_free:
  assumes "inj (cand :: nat \<Rightarrow> string)" and "finite (dom m)"
  shows "\<exists>k. m (cand (c + k)) = None"
proof (rule ccontr)
  assume "\<not> ?thesis"
  then have "(\<lambda>k. cand (c + k)) ` UNIV \<subseteq> dom m" by auto
  with assms(2) have "finite ((\<lambda>k. cand (c + k)) ` (UNIV :: nat set))" by (rule rev_finite_subset)
  moreover have "inj (\<lambda>k. cand (c + k))"
  proof (rule injI)
    fix j k assume "cand (c + j) = cand (c + k)"
    with assms(1) have "c + j = c + k" by (rule injD)
    then show "j = k" by simp
  qed
  ultimately have "finite (UNIV :: nat set)" by (rule finite_imageD)
  then show False by simp
qed

lemma tried_free:
  assumes "inj (cand :: nat \<Rightarrow> string)" and "finite (dom m)"
  shows "\<exists>k. m (tried t cand c k) = None"
proof -
  from some_free[OF assms, of c] obtain k where "m (cand (c + k)) = None" by blast
  then have "m (tried t cand c (Suc k)) = None" by simp
  then show ?thesis by blast
qed

lemma freeTarget_found:
  assumes "\<forall>j < n. entries fs (tried t (candidate d b x) c j) \<noteq> None"
    and "entries fs (tried t (candidate d b x) c n) = None"
  shows "freeTarget d b x t c fs =
     Some (tried t (candidate d b x) c n,
           fs\<lparr>ops := ops fs @ map (\<lambda>j. Stat (tried t (candidate d b x) c j)) [0..<Suc n]\<rparr>)"
  using assms
proof (induction n arbitrary: t c fs)
  case 0
  then show ?case by (subst freeTarget.simps) (simp add: fileExists_def)
next
  case (Suc n)
  let ?cand = "candidate d b x"
  let ?fs1 = "fs\<lparr>ops := ops fs @ [Stat t]\<rparr>"
  have shift: "tried (?cand c) ?cand (Suc c) j = tried t ?cand c (Suc j)" for j
    by (cases j) simp_all
  from Suc.prems(1) have ex: "entries fs t \<noteq> None" by (metis tried.simps(1) zero_less_Suc)
  have a: "\<forall>j < n. entries ?fs1 (tried (?cand c) ?cand (Suc c) j) \<noteq> None"
  proof (intro allI impI)
    fix j assume "j < n"
    then have "Suc j < Suc n" by simp
    with Suc.prems(1) have "entries fs (tried t ?cand c (Suc j)) \<noteq> None" by blast
    then show "entries ?fs1 (tried (?cand c) ?cand (Suc c) j) \<noteq> None"
      unfolding shift by simp
  qed
  have b: "entries ?fs1 (tried (?cand c) ?cand (Suc c) n) = None"
    using Suc.prems(2) unfolding shift by simp
  have "freeTarget d b x t c fs = freeTarget d b x (?cand c) (Suc c) ?fs1"
    using ex by (subst freeTarget.simps) (simp add: fileExists_def)
  also have "\<dots> = Some (tried (?cand c) ?cand (Suc c) n,
           ?fs1\<lparr>ops := ops ?fs1 @ map (\<lambda>j. Stat (tried (?cand c) ?cand (Suc c) j)) [0..<Suc n]\<rparr>)"
    using a b by (rule Suc.IH)
  also have "\<dots> = Some (tried t ?cand c (Suc n),
           fs\<lparr>ops := ops fs @ map (\<lambda>j. Stat (tried t ?cand c j)) [0..<Suc (Suc n)]\<rparr>)"
  proof -
    have "map (\<lambda>j. Stat (tried t ?cand c j)) [0..<Suc (Suc n)]
        = Stat t # map (\<lambda>j. Stat (tried t ?cand c (Suc j))) [0..<Suc n]"
      by (simp add: upt_rec[of 0] map_Suc_upt[symmetric] del: upt_Suc)
    then show ?thesis by (simp add: shift del: upt_Suc)
  qed
  finally show ?case .
qed

text \<open>On a finite file system the loop finds the first free name.\<close>

lemma freeTarget_terminates:
  assumes "sep \<notin> set b" and "sep \<notin> set x" and "finite (dom (entries fs))"
  shows "\<exists>n. (\<forall>j < n. entries fs (tried t (candidate d b x) c j) \<noteq> None)
      \<and> entries fs (tried t (candidate d b x) c n) = None
      \<and> freeTarget d b x t c fs =
          Some (tried t (candidate d b x) c n,
                fs\<lparr>ops := ops fs @ map (\<lambda>j. Stat (tried t (candidate d b x) c j)) [0..<Suc n]\<rparr>)"
proof -
  let ?P = "\<lambda>k. entries fs (tried t (candidate d b x) c k) = None"
  from tried_free[OF candidate_inj[OF assms(1,2)] assms(3), of t d c]
  have ex: "\<exists>k. ?P k" .
  define n where "n = (LEAST k. ?P k)"
  have pn: "?P n" unfolding n_def using ex by (rule LeastI_ex)
  have lt: "\<forall>j < n. \<not> ?P j" unfolding n_def using not_less_Least by blast
  from freeTarget_found[of n fs t d b x c] pn lt show ?thesis by blast
qed

section \<open>Moving a file\<close>

lemma freeTarget_partial_raw:
  assumes "freeTarget d b x t c fs = Some y"
  shows "entries fs (fst y) = None \<and> entries (snd y) = entries fs"
proof (rule freeTarget.raw_induct[where P = "\<lambda>d b x t c fs y. entries fs (fst y) = None \<and> entries (snd y) = entries fs",
      OF _ assms])
  fix f :: "string \<Rightarrow> string \<Rightarrow> string \<Rightarrow> string \<Rightarrow> nat \<Rightarrow> filesystem \<Rightarrow> (string \<times> filesystem) option"
  fix targetDir base ext targetPath counter fs y
  assume ih: "\<And>a1 a2 a3 a4 a5 a6 z. f a1 a2 a3 a4 a5 a6 = Some z \<Longrightarrow>
      entries a6 (fst z) = None \<and> entries (snd z) = entries a6"
    and eq: "(if fst (fileExists targetPath fs)
      then f targetDir base ext (candidate targetDir base ext counter) (Suc counter)
             (snd (fileExists targetPath fs))
      else Some (targetPath, snd (fileExists targetPath fs))) = Some y"
  show "entries fs (fst y) = None \<and> entries (snd y) = entries fs"
  proof (cases "fst (fileExists targetPath fs)")
    case True
    with eq have "f targetDir base ext (candidate targetDir base ext counter) (Suc counter)
        (snd (fileExists targetPath fs)) = Some y" by simp
    from ih[OF this] show ?thesis by (simp add: fileExists_def)
  next
    case False
    with eq show ?thesis by (auto simp: fileExists_def)
  qed
qed

lemma freeTarget_partial:
  "freeTarget d b x t c fs = Some (r, fs1) \<Longrightarrow> entries fs r = None \<and> entries fs1 = entries fs"
  using freeTarget_partial_raw[of d b x t c fs "(r, fs1)"] by simp

lemma createDirectory_Inr:
  "createDirectory d fs = (Inr u, fs2) \<Longrightarrow>
     entries fs2 = (entries fs)(d \<mapsto> Directory) \<and> (\<forall>c. entries fs d \<noteq> Some (File c))
     \<and> ops fs2 = ops fs @ [CreateDirectory d]"
  by (auto simp: createDirectory_def Let_def split: option.splits node.splits)

lemma createDirectory_keeps:
  assumes "createDirectory d fs = (Inr u, fs2)" and "entries fs q = Some n"
  shows "entries fs2 q = Some n"
proof (cases "q = d")
  case True
  with createDirectory_Inr[OF assms(1)] assms(2) show ?thesis by (cases n) auto
next
  case False
  with createDirectory_Inr[OF assms(1)] assms(2) show ?thesis by simp
qed

lemma rename_Inr:
  "rename src tgt fs = (Inr u, fs3) \<Longrightarrow>
     \<exists>n. entries fs src = Some n \<and> entries fs tgt = None
       \<and> entries fs3 = (entries fs)(src := None, tgt \<mapsto> n)
       \<and> ops fs3 = ops fs @ [Rename src tgt]"
  by (auto simp: rename_def Let_def split: option.splits if_splits)


lemma moveFeatureFile_unfold:
  "moveFeatureFile p d st fs =
     (if p = targetPathOf p d st then Some (Inr p, fs)
      else
        (case freeTarget (targetDirOf d st)
                (basenameWithout (basename p) (extname (basename p))) (extname (basename p))
                (targetPathOf p d st) 1 fs of
           None \<Rightarrow> None
         | Some (target, fs1) \<Rightarrow>
             (case createDirectory (targetDirOf d st) fs1 of
                (Inl err, fs2) \<Rightarrow> Some (Inl err, fs2)
              | (Inr u, fs2) \<Rightarrow>
                  (case rename p target fs2 of
                     (Inl err, fs3) \<Rightarrow> Some (Inl err, fs3)
                   | (Inr u, fs3) \<Rightarrow> Some (Inr target, fs3)))))"
  unfolding moveFeatureFile_def targetPathOf_def targetDirOf_def Let_def by (rule refl)

text \<open>What a move that returned a path did.\<close>

lemma moveFeatureFile_Inr:
  assumes "moveFeatureFile p d st fs = Some (Inr r, fs')"
  shows "(r = p \<or> entries fs r = None)
     \<and> (\<forall>n. entries fs p = Some n \<longrightarrow> entries fs' r = Some n)
     \<and> (\<forall>q n. q \<noteq> p \<and> entries fs q = Some n \<longrightarrow> entries fs' q = Some n)"
proof (cases "p = targetPathOf p d st")
  case True
  with assms have "r = p" "fs' = fs" by (simp_all add: moveFeatureFile_unfold)
  then show ?thesis by simp
next
  case False
  let ?dir = "targetDirOf d st"
  let ?ft = "freeTarget ?dir (basenameWithout (basename p) (extname (basename p)))
            (extname (basename p)) (targetPathOf p d st) 1 fs"
  from assms False obtain y where y: "?ft = Some y"
    by (cases ?ft) (simp_all add: moveFeatureFile_unfold)
  obtain target fs1 where y': "y = (target, fs1)" by (cases y)
  obtain c1 fs2 where cd0: "createDirectory ?dir fs1 = (c1, fs2)" by (cases "createDirectory ?dir fs1")
  obtain c2 fs3 where rn0: "rename p target fs2 = (c2, fs3)" by (cases "rename p target fs2")
  from assms False y y' cd0 obtain u where c1: "c1 = Inr u"
    by (cases c1) (simp_all add: moveFeatureFile_unfold)
  from assms False y y' cd0 c1 rn0 obtain u' where c2: "c2 = Inr u'"
    by (cases c2) (simp_all add: moveFeatureFile_unfold)
  from assms False y y' cd0 c1 rn0 c2 have res: "r = target" "fs' = fs3"
    by (simp_all add: moveFeatureFile_unfold)
  have ft: "?ft = Some (target, fs1)" using y y' by simp
  have cd: "createDirectory ?dir fs1 = (Inr u, fs2)" using cd0 c1 by simp
  have rn: "rename p target fs2 = (Inr u', fs3)" using rn0 c2 by simp
  from freeTarget_partial[OF ft] have free: "entries fs target = None" and e1: "entries fs1 = entries fs"
    by simp_all
  from rename_Inr[OF rn] obtain n where
    src: "entries fs2 p = Some n" and tfree: "entries fs2 target = None"
    and e3: "entries fs3 = (entries fs2)(p := None, target \<mapsto> n)" by blast
  have keep: "entries fs2 q = Some m" if "entries fs q = Some m" for q m
    using createDirectory_keeps[OF cd, of q m] that e1 by simp
  have a: "r = p \<or> entries fs r = None" using free res by simp
  have b: "\<forall>m. entries fs p = Some m \<longrightarrow> entries fs' r = Some m"
  proof (intro allI impI)
    fix m assume "entries fs p = Some m"
    then have "entries fs2 p = Some m" by (rule keep)
    with src have "n = m" by simp
    then show "entries fs' r = Some m" using e3 res by simp
  qed
  have c: "\<forall>q m. q \<noteq> p \<and> entries fs q = Some m \<longrightarrow> entries fs' q = Some m"
  proof (intro allI impI)
    fix q m assume h: "q \<noteq> p \<and> entries fs q = Some m"
    then have k: "entries fs2 q = Some m" using keep by blast
    with tfree have "q \<noteq> target" by auto
    with k h show "entries fs' q = Some m" using e3 res by simp
  qed
  from a b c show ?thesis by blast
qed

text \<open>A move on a finite file system returns; what it tries, picks and does.\<close>

lemma moveFeatureFile_moves:
  assumes "currentPath \<noteq> targetPathOf currentPath featuresDir newStatus"
    and "finite (dom (entries fs))"
  shows "\<exists>n. (\<forall>j < n. entries fs (attemptOf currentPath featuresDir newStatus j) \<noteq> None)
      \<and> entries fs (attemptOf currentPath featuresDir newStatus n) = None
      \<and> moveFeatureFile currentPath featuresDir newStatus fs =
          (case createDirectory (targetDirOf featuresDir newStatus)
                       (fs\<lparr>ops := ops fs @ map (\<lambda>j. Stat (attemptOf currentPath featuresDir newStatus j))
                                              [0..<Suc n]\<rparr>) of
                  (Inl err, fs2) \<Rightarrow> Some (Inl err, fs2)
                | (Inr u, fs2) \<Rightarrow>
                    (case rename currentPath (attemptOf currentPath featuresDir newStatus n) fs2 of
                       (Inl err, fs3) \<Rightarrow> Some (Inl err, fs3)
                     | (Inr u, fs3) \<Rightarrow> Some (Inr (attemptOf currentPath featuresDir newStatus n), fs3)))"
proof -
  let ?b = "basenameWithout (basename currentPath) (extname (basename currentPath))"
  let ?x = "extname (basename currentPath)"
  let ?t = "targetPathOf currentPath featuresDir newStatus"
  let ?d = "targetDirOf featuresDir newStatus"
  have eq: "attemptOf currentPath featuresDir newStatus = tried ?t (candidate ?d ?b ?x) 1"
    by (simp add: attemptOf_def candidateOf_def)
  have nb: "sep \<notin> set ?b" by (rule basenameWithout_no_sep)
  have nx: "sep \<notin> set ?x" by (rule extname_no_sep)
  from freeTarget_terminates[OF nb nx assms(2), of ?t ?d 1]
  obtain n where
    a: "\<forall>j < n. entries fs (tried ?t (candidate ?d ?b ?x) 1 j) \<noteq> None"
    and b: "entries fs (tried ?t (candidate ?d ?b ?x) 1 n) = None"
    and c: "freeTarget ?d ?b ?x ?t 1 fs =
          Some (tried ?t (candidate ?d ?b ?x) 1 n,
                fs\<lparr>ops := ops fs @ map (\<lambda>j. Stat (tried ?t (candidate ?d ?b ?x) 1 j)) [0..<Suc n]\<rparr>)"
    by (elim exE conjE)
  have m: "moveFeatureFile currentPath featuresDir newStatus fs =
      (case createDirectory ?d
              (fs\<lparr>ops := ops fs @ map (\<lambda>j. Stat (tried ?t (candidate ?d ?b ?x) 1 j)) [0..<Suc n]\<rparr>) of
         (Inl err, fs2) \<Rightarrow> Some (Inl err, fs2)
       | (Inr u, fs2) \<Rightarrow>
           (case rename currentPath (tried ?t (candidate ?d ?b ?x) 1 n) fs2 of
              (Inl err, fs3) \<Rightarrow> Some (Inl err, fs3)
            | (Inr u, fs3) \<Rightarrow> Some (Inr (tried ?t (candidate ?d ?b ?x) 1 n), fs3)))"
    by (simp only: moveFeatureFile_unfold c assms(1) if_False option.case prod.case)
  show ?thesis unfolding eq using a b m by blast
qed

lemma createDirectory_any:
  "createDirectory d fs = (c, fs2) \<Longrightarrow>
     ops fs2 = ops fs @ [CreateDirectory d]
     \<and> (\<forall>q n. entries fs q = Some n \<longrightarrow> entries fs2 q = Some n)
     \<and> ((\<forall>x. entries fs d \<noteq> Some (File x)) \<longrightarrow> c = Inr () \<and> entries fs2 = (entries fs)(d \<mapsto> Directory))"
  by (auto simp: createDirectory_def Let_def split: option.splits node.splits)

lemma rename_any:
  "rename src tgt fs = (c, fs3) \<Longrightarrow>
     ops fs3 = ops fs @ [Rename src tgt]
     \<and> ((\<exists>err. c = Inl err) \<longrightarrow> entries fs3 = entries fs)
     \<and> (\<forall>n. entries fs src = Some n \<and> entries fs tgt = None \<longrightarrow>
           c = Inr () \<and> entries fs3 = (entries fs)(src := None, tgt \<mapsto> n))
     \<and> (c = Inr () \<longrightarrow> entries fs tgt = None \<and> entries fs3 tgt = entries fs src
           \<and> (\<forall>q. q \<noteq> src \<and> q \<noteq> tgt \<longrightarrow> entries fs3 q = entries fs q))"
  by (auto simp: rename_def Let_def split: option.splits if_splits)

text \<open>
  C2. When the computed target is the current path, \<open>moveFeatureFile\<close> returns the
  current path and leaves the file system and the list of operations as they were.
  Otherwise, on a finite file system, it returns; it checked the existence of the
  target and of the candidates \<open>-1\<close>, \<open>-2\<close>, ... in that order up to the first name
  that does not exist, then created the directory and renamed the source to that
  name; no other existing entry is changed, and when a path is returned it is that
  first free name, the rename was the last operation, the source path is free and
  the new path holds what the source held. The names tried after the target are the
  base name, \<open>-k\<close> for \<open>k\<close> from 1 and the extension, in the target directory. Two moves in a row of two
  different existing files return two different paths, and afterwards each path
  holds what its source held.
\<close>

theorem moveFeatureFile_safe:
  "(currentPath = targetPathOf currentPath featuresDir newStatus \<longrightarrow>
      moveFeatureFile currentPath featuresDir newStatus fs = Some (Inr currentPath, fs))
   \<and> (currentPath \<noteq> targetPathOf currentPath featuresDir newStatus \<and> finite (dom (entries fs)) \<longrightarrow>
        (\<exists>n r fs' rest.
           moveFeatureFile currentPath featuresDir newStatus fs = Some (r, fs')
           \<and> (\<forall>j < n. entries fs (attemptOf currentPath featuresDir newStatus j) \<noteq> None)
           \<and> entries fs (attemptOf currentPath featuresDir newStatus n) = None
           \<and> ops fs' = ops fs @ map (\<lambda>j. Stat (attemptOf currentPath featuresDir newStatus j)) [0..<Suc n]
                          @ CreateDirectory (targetDirOf featuresDir newStatus) # rest
           \<and> (rest = [] \<or> rest = [Rename currentPath (attemptOf currentPath featuresDir newStatus n)])
           \<and> (\<forall>q node. q \<noteq> currentPath \<and> entries fs q = Some node \<longrightarrow> entries fs' q = Some node)
           \<and> (\<forall>x. r = Inr x \<longrightarrow>
                  x = attemptOf currentPath featuresDir newStatus n
                  \<and> rest = [Rename currentPath x] \<and> entries fs' currentPath = None
                  \<and> (\<forall>node. entries fs currentPath = Some node \<longrightarrow> entries fs' x = Some node))
           \<and> ((\<exists>node. entries fs currentPath = Some node)
                \<and> (\<forall>c. entries fs (targetDirOf featuresDir newStatus) \<noteq> Some (File c))
                \<and> attemptOf currentPath featuresDir newStatus n \<noteq> targetDirOf featuresDir newStatus
              \<longrightarrow> r = Inr (attemptOf currentPath featuresDir newStatus n))))
   \<and> (p1 \<noteq> p2 \<and> entries fs p1 = Some n1 \<and> entries fs p2 = Some n2
        \<and> moveFeatureFile p1 featuresDir newStatus fs = Some (Inr r1, fs1)
        \<and> moveFeatureFile p2 featuresDir newStatus fs1 = Some (Inr r2, fs2)
      \<longrightarrow> r1 \<noteq> r2 \<and> entries fs2 r1 = Some n1 \<and> entries fs2 r2 = Some n2)
   \<and> attemptOf currentPath featuresDir newStatus 0
        = join [join [featuresDir, newStatus], basename currentPath]
   \<and> (\<forall>k. attemptOf currentPath featuresDir newStatus (Suc k)
            = join [join [featuresDir, newStatus],
                    basenameWithout (basename currentPath) (extname (basename currentPath))
                      @ ''-'' @ string_of_nat (Suc k) @ extname (basename currentPath)])
   \<and> (\<exists>dir. \<forall>k. attemptOf currentPath featuresDir newStatus (Suc k)
            = dir @ basenameWithout (basename currentPath) (extname (basename currentPath))
                @ ''-'' @ string_of_nat (Suc k) @ extname (basename currentPath))"
proof (intro conjI impI)
  assume "currentPath = targetPathOf currentPath featuresDir newStatus"
  then show "moveFeatureFile currentPath featuresDir newStatus fs = Some (Inr currentPath, fs)"
    by (simp add: moveFeatureFile_unfold)
next
  assume h: "currentPath \<noteq> targetPathOf currentPath featuresDir newStatus \<and> finite (dom (entries fs))"
  let ?at = "attemptOf currentPath featuresDir newStatus"
  let ?dir = "targetDirOf featuresDir newStatus"
  from h have h1: "currentPath \<noteq> targetPathOf currentPath featuresDir newStatus"
    and h2: "finite (dom (entries fs))" by simp_all
  from moveFeatureFile_moves[OF h1 h2] obtain n where
    a: "\<forall>j < n. entries fs (?at j) \<noteq> None" and b: "entries fs (?at n) = None"
    and m: "moveFeatureFile currentPath featuresDir newStatus fs =
          (case createDirectory ?dir (fs\<lparr>ops := ops fs @ map (\<lambda>j. Stat (?at j)) [0..<Suc n]\<rparr>) of
             (Inl err, fs2) \<Rightarrow> Some (Inl err, fs2)
           | (Inr u, fs2) \<Rightarrow>
               (case rename currentPath (?at n) fs2 of
                  (Inl err, fs3) \<Rightarrow> Some (Inl err, fs3)
                | (Inr u, fs3) \<Rightarrow> Some (Inr (?at n), fs3)))"
    by (elim exE conjE)
  let ?fs1 = "fs\<lparr>ops := ops fs @ map (\<lambda>j. Stat (?at j)) [0..<Suc n]\<rparr>"
  obtain c1 fs2 where cd: "createDirectory ?dir ?fs1 = (c1, fs2)" by (cases "createDirectory ?dir ?fs1")
  note cdf = createDirectory_any[OF cd]
  have e1: "entries ?fs1 = entries fs" and o1: "ops ?fs1 = ops fs @ map (\<lambda>j. Stat (?at j)) [0..<Suc n]"
    by simp_all
  show "\<exists>n r fs' rest.
           moveFeatureFile currentPath featuresDir newStatus fs = Some (r, fs')
           \<and> (\<forall>j < n. entries fs (?at j) \<noteq> None)
           \<and> entries fs (?at n) = None
           \<and> ops fs' = ops fs @ map (\<lambda>j. Stat (?at j)) [0..<Suc n] @ CreateDirectory ?dir # rest
           \<and> (rest = [] \<or> rest = [Rename currentPath (?at n)])
           \<and> (\<forall>q node. q \<noteq> currentPath \<and> entries fs q = Some node \<longrightarrow> entries fs' q = Some node)
           \<and> (\<forall>x. r = Inr x \<longrightarrow>
                  x = ?at n \<and> rest = [Rename currentPath x] \<and> entries fs' currentPath = None
                  \<and> (\<forall>node. entries fs currentPath = Some node \<longrightarrow> entries fs' x = Some node))
           \<and> ((\<exists>node. entries fs currentPath = Some node)
                \<and> (\<forall>c. entries fs ?dir \<noteq> Some (File c)) \<and> ?at n \<noteq> ?dir
              \<longrightarrow> r = Inr (?at n))"
  proof (cases c1)
    case (Inl err)
    with m cd have res: "moveFeatureFile currentPath featuresDir newStatus fs = Some (Inl err, fs2)"
      by (simp del: upt_Suc)
    have blocked: "\<exists>c. entries fs ?dir = Some (File c)" using cdf Inl e1 by auto
    have "ops fs2 = ops fs @ map (\<lambda>j. Stat (?at j)) [0..<Suc n] @ CreateDirectory ?dir # []"
      using cdf o1 by (simp del: upt_Suc)
    moreover have "\<forall>q node. q \<noteq> currentPath \<and> entries fs q = Some node \<longrightarrow> entries fs2 q = Some node"
      using cdf e1 by simp
    ultimately have o2: "ops fs2 = ops fs @ map (\<lambda>j. Stat (?at j)) [0..<Suc n] @ CreateDirectory ?dir # []"
      and others: "\<forall>q node. q \<noteq> currentPath \<and> entries fs q = Some node \<longrightarrow> entries fs2 q = Some node"
      by blast+
    have r0: "([] :: fs_op list) = [] \<or> [] = [Rename currentPath (?at n)]" by simp
    have x0: "\<forall>x. (Inl err :: fs_error + string) = Inr x \<longrightarrow>
                  x = ?at n \<and> [] = [Rename currentPath x] \<and> entries fs2 currentPath = None
                  \<and> (\<forall>node. entries fs currentPath = Some node \<longrightarrow> entries fs2 x = Some node)"
      by simp
    have s0: "(\<exists>node. entries fs currentPath = Some node)
                \<and> (\<forall>c. entries fs ?dir \<noteq> Some (File c)) \<and> ?at n \<noteq> ?dir
              \<longrightarrow> (Inl err :: fs_error + string) = Inr (?at n)"
      using blocked by blast
    show ?thesis
      by (rule exI[of _ n], rule exI[of _ "Inl err"], rule exI[of _ fs2], rule exI[of _ "[]"])
         (intro conjI res a b o2 r0 others x0 s0)
  next
    case (Inr u)
    obtain c2 fs3 where rn: "rename currentPath (?at n) fs2 = (c2, fs3)"
      by (cases "rename currentPath (?at n) fs2")
    note rnf = rename_any[OF rn]
    have keep2: "entries fs2 q = Some node" if "entries fs q = Some node" for q node
      using cdf e1 that by simp
    have o3: "ops fs3 = ops fs @ map (\<lambda>j. Stat (?at j)) [0..<Suc n]
                @ CreateDirectory ?dir # [Rename currentPath (?at n)]"
      using cdf rnf o1 by (simp del: upt_Suc)
    show ?thesis
    proof (cases c2)
      case (Inl err)
      with m cd \<open>c1 = Inr u\<close> rn
      have res: "moveFeatureFile currentPath featuresDir newStatus fs = Some (Inl err, fs3)"
        by (simp del: upt_Suc)
      have e3: "entries fs3 = entries fs2" using rnf Inl by blast
      have others: "\<forall>q node. q \<noteq> currentPath \<and> entries fs q = Some node \<longrightarrow> entries fs3 q = Some node"
        using keep2 e3 by simp
      have nosucc: "\<not> ((\<exists>node. entries fs currentPath = Some node)
                \<and> (\<forall>c. entries fs ?dir \<noteq> Some (File c)) \<and> ?at n \<noteq> ?dir)"
      proof
        assume s: "(\<exists>node. entries fs currentPath = Some node)
                \<and> (\<forall>c. entries fs ?dir \<noteq> Some (File c)) \<and> ?at n \<noteq> ?dir"
        then obtain node where "entries fs currentPath = Some node" by blast
        then have src: "entries fs2 currentPath = Some node" by (rule keep2)
        from s cdf e1 have "entries fs2 = (entries fs)(?dir \<mapsto> Directory)" by simp
        with s b have "entries fs2 (?at n) = None" by simp
        with src rnf have "c2 = Inr ()" by blast
        with Inl show False by simp
      qed
      have r0: "[Rename currentPath (?at n)] = [] \<or> [Rename currentPath (?at n)] = [Rename currentPath (?at n)]"
        by simp
      have x0: "\<forall>x. (Inl err :: fs_error + string) = Inr x \<longrightarrow>
                  x = ?at n \<and> [Rename currentPath (?at n)] = [Rename currentPath x]
                  \<and> entries fs3 currentPath = None
                  \<and> (\<forall>node. entries fs currentPath = Some node \<longrightarrow> entries fs3 x = Some node)"
        by simp
      have s0: "(\<exists>node. entries fs currentPath = Some node)
                \<and> (\<forall>c. entries fs ?dir \<noteq> Some (File c)) \<and> ?at n \<noteq> ?dir
              \<longrightarrow> (Inl err :: fs_error + string) = Inr (?at n)"
        using nosucc by blast
      show ?thesis
        by (rule exI[of _ n], rule exI[of _ "Inl err"], rule exI[of _ fs3],
            rule exI[of _ "[Rename currentPath (?at n)]"])
           (intro conjI res a b o3 r0 others x0 s0)
    next
      case (Inr u')
      with m cd \<open>c1 = Inr u\<close> rn
      have res: "moveFeatureFile currentPath featuresDir newStatus fs = Some (Inr (?at n), fs3)"
        by (simp del: upt_Suc)
      from rnf Inr have t2: "entries fs2 (?at n) = None"
        and t3: "entries fs3 (?at n) = entries fs2 currentPath"
        and o: "\<forall>q. q \<noteq> currentPath \<and> q \<noteq> ?at n \<longrightarrow> entries fs3 q = entries fs2 q"
        by simp_all
      have others: "\<forall>q node. q \<noteq> currentPath \<and> entries fs q = Some node \<longrightarrow> entries fs3 q = Some node"
      proof (intro allI impI)
        fix q node assume q: "q \<noteq> currentPath \<and> entries fs q = Some node"
        then have k: "entries fs2 q = Some node" using keep2 by blast
        with t2 have "q \<noteq> ?at n" by auto
        with q o k show "entries fs3 q = Some node" by simp
      qed
      have held: "\<forall>node. entries fs currentPath = Some node \<longrightarrow> entries fs3 (?at n) = Some node"
        using keep2 t3 by simp
      have r0: "[Rename currentPath (?at n)] = [] \<or> [Rename currentPath (?at n)] = [Rename currentPath (?at n)]"
        by simp
      from rn Inr have "rename currentPath (?at n) fs2 = (Inr u', fs3)" by simp
      from rename_Inr[OF this] have gone: "entries fs3 currentPath = None" by auto
      have x0: "\<forall>x. (Inr (?at n) :: fs_error + string) = Inr x \<longrightarrow>
                  x = ?at n \<and> [Rename currentPath (?at n)] = [Rename currentPath x]
                  \<and> entries fs3 currentPath = None
                  \<and> (\<forall>node. entries fs currentPath = Some node \<longrightarrow> entries fs3 x = Some node)"
        using held gone by simp
      have s0: "(\<exists>node. entries fs currentPath = Some node)
                \<and> (\<forall>c. entries fs ?dir \<noteq> Some (File c)) \<and> ?at n \<noteq> ?dir
              \<longrightarrow> (Inr (?at n) :: fs_error + string) = Inr (?at n)"
        by simp
      show ?thesis
        by (rule exI[of _ n], rule exI[of _ "Inr (?at n)"], rule exI[of _ fs3],
            rule exI[of _ "[Rename currentPath (?at n)]"])
           (intro conjI res a b o3 r0 others x0 s0)
    qed
  qed
next
  assume h: "p1 \<noteq> p2 \<and> entries fs p1 = Some n1 \<and> entries fs p2 = Some n2
        \<and> moveFeatureFile p1 featuresDir newStatus fs = Some (Inr r1, fs1)
        \<and> moveFeatureFile p2 featuresDir newStatus fs1 = Some (Inr r2, fs2)"
  then have m1: "moveFeatureFile p1 featuresDir newStatus fs = Some (Inr r1, fs1)"
    and m2: "moveFeatureFile p2 featuresDir newStatus fs1 = Some (Inr r2, fs2)"
    and ne12: "p1 \<noteq> p2" and e1: "entries fs p1 = Some n1" and e2: "entries fs p2 = Some n2"
    by simp_all
  from moveFeatureFile_Inr[OF m1]
  have a1: "r1 = p1 \<or> entries fs r1 = None"
    and b1: "\<forall>n. entries fs p1 = Some n \<longrightarrow> entries fs1 r1 = Some n"
    and c1: "\<forall>q n. q \<noteq> p1 \<and> entries fs q = Some n \<longrightarrow> entries fs1 q = Some n"
    by simp_all
  from moveFeatureFile_Inr[OF m2]
  have a2: "r2 = p2 \<or> entries fs1 r2 = None"
    and b2: "\<forall>n. entries fs1 p2 = Some n \<longrightarrow> entries fs2 r2 = Some n"
    and c2: "\<forall>q n. q \<noteq> p2 \<and> entries fs1 q = Some n \<longrightarrow> entries fs2 q = Some n"
    by simp_all
  have r1: "entries fs1 r1 = Some n1" using b1 e1 by simp
  have p2: "entries fs1 p2 = Some n2" using c1 e2 ne12 by simp
  have ne: "r1 \<noteq> p2"
  proof
    assume "r1 = p2"
    with a1 ne12 e2 show False by simp
  qed
  have d: "r1 \<noteq> r2"
  proof
    assume "r1 = r2"
    with a2 r1 ne show False by simp
  qed
  have x1: "entries fs2 r1 = Some n1" using c2 r1 ne by simp
  have x2: "entries fs2 r2 = Some n2" using b2 p2 by simp
  show "r1 \<noteq> r2" by (rule d)
  show "entries fs2 r1 = Some n1" by (rule x1)
  show "entries fs2 r2 = Some n2" by (rule x2)
next
  show "attemptOf currentPath featuresDir newStatus 0
        = join [join [featuresDir, newStatus], basename currentPath]"
    by (simp add: attemptOf_def targetPathOf_def targetDirOf_def)
next
  show "\<forall>k. attemptOf currentPath featuresDir newStatus (Suc k)
            = join [join [featuresDir, newStatus],
                    basenameWithout (basename currentPath) (extname (basename currentPath))
                      @ ''-'' @ string_of_nat (Suc k) @ extname (basename currentPath)]"
    by (simp add: attemptOf_def candidateOf_def candidate_def targetDirOf_def)
next
  let ?b = "basenameWithout (basename currentPath) (extname (basename currentPath))"
  let ?x = "extname (basename currentPath)"
  obtain pre where pre: "\<forall>y. simpleName y \<longrightarrow> join [targetDirOf featuresDir newStatus, y] = pre @ y"
    using join_dir_name by blast
  have "attemptOf currentPath featuresDir newStatus (Suc k) = pre @ ?b @ ''-'' @ string_of_nat (Suc k) @ ?x"
    for k
    using pre suffixed_simple[OF basenameWithout_no_sep extname_no_sep, of "basename currentPath"
        "extname (basename currentPath)" "Suc k" "basename currentPath"]
    by (simp add: attemptOf_def candidateOf_def candidate_def)
  then show "\<exists>dir. \<forall>k. attemptOf currentPath featuresDir newStatus (Suc k)
            = dir @ ?b @ ''-'' @ string_of_nat (Suc k) @ ?x"
    by blast
qed
theorem moveFeatureFile_safe_witness:
  "''/w/features/done/a.md'' = targetPathOf ''/w/features/done/a.md'' ''/w/features'' ''done''
   \<and> moveFeatureFile ''/w/features/done/a.md'' ''/w/features'' ''done'' exampleDisk
       = Some (Inr ''/w/features/done/a.md'', exampleDisk)
   \<and> finite (dom (entries exampleDisk))
   \<and> map_option fst (moveFeatureFile ''/w/features/todo/a.md'' ''/w/features'' ''done'' exampleDisk)
       = Some (Inr ''/w/features/done/a-2.md'')
   \<and> entries diskAfterFirstMove ''/w/features/done/a.md'' = Some (File ''old'')
   \<and> map_option fst (moveFeatureFile ''/w/features/backlog/a.md'' ''/w/features'' ''done'' diskAfterFirstMove)
       = Some (Inr ''/w/features/done/a-3.md'')
   \<and> entries (snd (the (moveFeatureFile ''/w/features/backlog/a.md'' ''/w/features'' ''done''
                          diskAfterFirstMove))) ''/w/features/done/a-2.md'' = Some (File ''A'')
   \<and> entries (snd (the (moveFeatureFile ''/w/features/backlog/a.md'' ''/w/features'' ''done''
                          diskAfterFirstMove))) ''/w/features/done/a-3.md'' = Some (File ''B'')"
proof -
  define d where "d = ''/w/features''"
  define s where "s = ''done''"
  define p0 where "p0 = ''/w/features/done/a.md''"
  define p1 where "p1 = ''/w/features/todo/a.md''"
  define p2 where "p2 = ''/w/features/backlog/a.md''"
  define q1 where "q1 = ''/w/features/done/a-2.md''"
  define q2 where "q2 = ''/w/features/done/a-3.md''"
  define m1 where "m1 = moveFeatureFile p1 d s exampleDisk"
  define m2 where "m2 = moveFeatureFile p2 d s diskAfterFirstMove"
  define fsA where "fsA = File ''A''"
  define fsB where "fsB = File ''B''"
  define old where "old = File ''old''"
  note defs = d_def s_def p0_def p1_def p2_def q1_def q2_def m1_def m2_def fsA_def fsB_def old_def
  have h0: "p0 = targetPathOf p0 d s" unfolding defs by code_simp
  have fin: "finite (dom (entries exampleDisk))" by (simp add: exampleDisk_def finite_dom_map_of)
  have h1: "p1 \<noteq> targetPathOf p1 d s" unfolding defs by code_simp
  have v1: "map_option fst m1 = Some (Inr q1)" unfolding defs by code_simp
  have v2: "map_option fst m2 = Some (Inr q2)" unfolding defs by code_simp
  have ne0: "p0 \<noteq> p1" unfolding defs by code_simp
  have at0: "entries exampleDisk p0 = Some old" unfolding defs by code_simp
  have ne12: "p1 \<noteq> p2" unfolding defs by code_simp
  have at1: "entries exampleDisk p1 = Some fsA" unfolding defs by code_simp
  have at2: "entries exampleDisk p2 = Some fsB" unfolding defs by code_simp
  from v1 have e1: "m1 = Some (Inr q1, diskAfterFirstMove)"
    unfolding m1_def p1_def d_def s_def by (cases m1) (auto simp: diskAfterFirstMove_def)
  from v2 have e2: "m2 = Some (Inr q2, snd (the m2))"
    by (cases m2) auto
  have w0: "moveFeatureFile p0 d s exampleDisk = Some (Inr p0, exampleDisk)"
    using moveFeatureFile_safe [of p0 d s exampleDisk, THEN conjunct1] h0 by (rule mp)
  from moveFeatureFile_safe [of p1 d s exampleDisk, THEN conjunct2, THEN conjunct1] h1 fin
  obtain n r fs' rest where
    m: "moveFeatureFile p1 d s exampleDisk = Some (r, fs')"
    and keep: "\<forall>q node. q \<noteq> p1 \<and> entries exampleDisk q = Some node \<longrightarrow> entries fs' q = Some node"
    by blast
  from m e1 have "fs' = diskAfterFirstMove" unfolding m1_def by simp
  with keep [rule_format, of p0 old] ne0 at0
  have w1: "entries diskAfterFirstMove p0 = Some old" by simp
  have "p1 \<noteq> p2 \<and> entries exampleDisk p1 = Some fsA \<and> entries exampleDisk p2 = Some fsB
      \<and> moveFeatureFile p1 d s exampleDisk = Some (Inr q1, diskAfterFirstMove)
      \<and> moveFeatureFile p2 d s diskAfterFirstMove = Some (Inr q2, snd (the m2))
    \<longrightarrow> q1 \<noteq> q2 \<and> entries (snd (the m2)) q1 = Some fsA \<and> entries (snd (the m2)) q2 = Some fsB"
    by (rule moveFeatureFile_safe [where ?p1.0 = p1 and ?p2.0 = p2 and featuresDir = d
          and newStatus = s and fs = exampleDisk and ?n1.0 = fsA and ?n2.0 = fsB and ?r1.0 = q1
          and ?fs1.0 = diskAfterFirstMove and ?r2.0 = q2 and ?fs2.0 = "snd (the m2)",
          THEN conjunct2, THEN conjunct2, THEN conjunct1])
  with ne12 at1 at2 e1 e2
  have w2: "entries (snd (the m2)) q1 = Some fsA \<and> entries (snd (the m2)) q2 = Some fsB"
    unfolding m1_def m2_def by simp
  from h0 w0 fin v1 w1 v2 w2 show ?thesis unfolding defs by simp
qed

section \<open>Calls of \<open>sync\<close> that overlap\<close>

lemma initialize_pieces: "initializeReturn e (initializeCall e s) = initialize e s"
  by (simp add: initializeReturn_def initializeCall_def)

text \<open>The pieces of a call, run one after the other, are \<open>sync\<close>.\<close>

lemma syncAlone_sync: "syncAlone e features s = sync e features s"
  by (simp add: syncAlone_def syncCall_def afterInitialize_def enterTry_def afterFetch_def
      sync_def initialize_pieces Let_def split: prod.splits option.splits)

text \<open>
  C6. The flag \<open>_syncing\<close> is tested when \<open>sync\<close> is called and set only after
  \<open>await this.initialize()\<close>, so it does not keep two passes apart. On a service
  that has no repository yet, a second call made while the first awaits
  \<open>initialize\<close> is not rejected; both calls then enter the \<open>try\<close> block, the second
  without a test and with the flag already set, and both await the fetch. Each pass
  ends without an error and each creates a record for issue 13; the first to end
  clears the flag while the second is still running, so that a third call would be
  let in as well; the remote was listed twice. With a configured repository the
  second call goes straight to the fetch and the first follows when it is resumed.
\<close>

theorem sync_overlap:
  "this_repo freshService = None \<and> \<not> this_syncing freshService
   \<and> fst firstCalled = AwaitingInitialize
   \<and> \<not> this_syncing (snd firstCalled)
   \<and> fst secondCalled = AwaitingInitialize
   \<and> fst firstResumed = AwaitingFetch
   \<and> this_syncing (snd firstResumed)
   \<and> fst secondResumed = AwaitingFetch
   \<and> errors (fst firstDone) = []
   \<and> errors (fst secondDone) = []
   \<and> map (map_option issueNumber \<circ> github) (SyncResult.created (fst firstDone)) = [Some 13]
   \<and> map (map_option issueNumber \<circ> github) (SyncResult.created (fst secondDone)) = [Some 13]
   \<and> updated (fst firstDone) = [0, 3]
   \<and> \<not> this_syncing (snd (snd firstDone))
   \<and> fst (syncCall detecting (snd (snd firstDone))) = AwaitingFetch
   \<and> map req_method (sent (snd (snd secondDone))) = [GET, PATCH, PATCH, GET]
   \<and> fst (syncCall (exampleEnv steady) freshService) = AwaitingInitialize
   \<and> fst (syncCall (exampleEnv steady) (snd (syncCall (exampleEnv steady) freshService)))
       = AwaitingFetch
   \<and> fst (afterInitialize (exampleEnv steady)
            (snd (syncCall (exampleEnv steady) (snd (syncCall (exampleEnv steady) freshService)))))
       = AwaitingFetch"
  by (intro conjI; code_simp)

end
